theory Spec2Isabelle
  imports Complex_Main "HOL-Library.While_Combinator" "HOL-Library.Multiset"
begin

section \<open>Tiles, positions and the tile array\<close>

text \<open>
  The dungeon map of \<^verbatim>\<open>revengate/maps.py\<close>. Coordinates are pairs of Python integers,
  \<open>(0, 0)\<close> being the bottom-left corner.
\<close>

type_synonym pos = "int \<times> int"

datatype TileType =
  SOLID_ROCK | FLOOR | WALL | WALL_V | WALL_H | DOORWAY_OPEN | DOORWAY_CLOSED

text \<open>
  A cell of the tile array holds either a \<^verbatim>\<open>TileType\<close> member or a \<^verbatim>\<open>Connector\<close>
  object (\<^verbatim>\<open>char\<close>, \<^verbatim>\<open>dest_map\<close>).
\<close>

datatype tile =
  Plain TileType
  | Connector (char: string) (dest_map: "string option")

definition WALKABLE :: "TileType list" where
  "WALKABLE = [FLOOR, DOORWAY_OPEN]"

definition SEE_THROUGH :: "TileType list" where
  "SEE_THROUGH = [FLOOR, DOORWAY_OPEN]"

definition WALLS :: "TileType list" where
  "WALLS = [WALL, WALL_H, WALL_V]"

text \<open>\<^verbatim>\<open>isinstance(tile, Connector)\<close>.\<close>

fun is_Connector :: "tile \<Rightarrow> bool" where
  "is_Connector (Connector c d) = True"
| "is_Connector (Plain t) = False"

text \<open>
  \<^verbatim>\<open>tile in WALKABLE\<close>, \<^verbatim>\<open>tile in SEE_THROUGH\<close>: list membership by \<^verbatim>\<open>==\<close>.
  A \<^verbatim>\<open>Connector\<close> object is equal to no enum member.
\<close>

fun tile_in :: "tile \<Rightarrow> TileType list \<Rightarrow> bool" where
  "tile_in (Plain t) ts = (t \<in> set ts)"
| "tile_in (Connector c d) ts = False"

datatype error =
  IndexError | KeyError | TypeError | ValueError_AlreadyOnMap | ValueError_Conflict
  | ValueError_Unsupported | ValueError_NotOnMap | RuntimeError_MapFull
  | RuntimeError_HeroNotRestored | StopIteration | AttributeError

text \<open>
  Modelled from the spec: \<^verbatim>\<open>utils.Array\<close>, the width\<times>height array of tile values
  (origin bottom-left, 0-indexed) that \<^verbatim>\<open>Map.tiles\<close> holds. \<^verbatim>\<open>tiles[x][y]\<close> reads
  the cell of column \<open>x\<close> and row \<open>y\<close>; \<^verbatim>\<open>tiles.size()\<close> is \<open>(width, height)\<close>.
  A read or a write outside the array is an \<^verbatim>\<open>IndexError\<close> of the model.
\<close>

record Array =
  awidth :: int
  aheight :: int
  cells :: "pos \<Rightarrow> tile"

definition in_array :: "Array \<Rightarrow> pos \<Rightarrow> bool" where
  "in_array a p = (0 \<le> fst p \<and> fst p < awidth a \<and> 0 \<le> snd p \<and> snd p < aheight a)"

definition array_get :: "Array \<Rightarrow> pos \<Rightarrow> error + tile" where
  "array_get a p = (if in_array a p then Inr (cells a p) else Inl IndexError)"

definition array_set :: "Array \<Rightarrow> pos \<Rightarrow> tile \<Rightarrow> error + Array" where
  "array_set a p t =
     (if in_array a p then Inr (a\<lparr>cells := (cells a)(p := t)\<rparr>) else Inl IndexError)"

section \<open>The map and its occupancy indices\<close>

text \<open>
  An actor is an object with an \<^verbatim>\<open>id\<close> attribute; Python compares and hashes it by
  identity, which is the field \<open>actor_obj\<close>. Items and moods are opaque objects.
\<close>

datatype actor = Actor (actor_obj: nat) (actor_id: string)

datatype item = Item (item_obj: nat)

datatype mood = Mood (mood_obj: nat)

datatype thing = AnActor actor | AnItem item | AMood mood | Other nat

record Map =
  map_id :: string
  tiles :: "Array option"
  id_to_a :: "string \<rightharpoonup> actor"
  a_to_pos :: "actor \<rightharpoonup> pos"
  pos_to_a :: "pos \<rightharpoonup> actor"
  i_to_pos :: "item \<rightharpoonup> pos"
  pos_to_i :: "pos \<rightharpoonup> item list"
  pos_to_m :: "pos \<rightharpoonup> mood"
  map_to_conn :: "string \<rightharpoonup> pos"

text \<open>\<^verbatim>\<open>Map.__getitem__\<close>: \<^verbatim>\<open>self.tiles[x][y]\<close>; subscripting \<^verbatim>\<open>None\<close> is a TypeError.\<close>

definition getitem :: "Map \<Rightarrow> pos \<Rightarrow> error + tile" where
  "getitem m p = (case tiles m of None \<Rightarrow> Inl TypeError | Some a \<Rightarrow> array_get a p)"

text \<open>\<^verbatim>\<open>Map.__setitem__\<close>.\<close>

definition setitem :: "Map \<Rightarrow> pos \<Rightarrow> tile \<Rightarrow> error + Map" where
  "setitem m p t =
     (case tiles m of
        None \<Rightarrow> Inl TypeError
      | Some a \<Rightarrow>
          (case array_set a p t of
             Inl e \<Rightarrow> Inl e
           | Inr a' \<Rightarrow> Inr (m\<lparr>tiles := Some a'\<rparr>)))"

text \<open>\<^verbatim>\<open>Map.size\<close>: \<open>(0, 0)\<close> while the map has no tile array.\<close>

definition size_of :: "Map \<Rightarrow> int \<times> int" where
  "size_of m = (case tiles m of None \<Rightarrow> (0, 0) | Some a \<Rightarrow> (awidth a, aheight a))"

definition is_in_map :: "Map \<Rightarrow> pos \<Rightarrow> bool" where
  "is_in_map m p =
     (let (w, h) = size_of m; (x, y) = p in 0 \<le> x \<and> x < w \<and> 0 \<le> y \<and> y < h)"

text \<open>\<^verbatim>\<open>Map.distance\<close>: the grid (Chebyshev) distance.\<close>

definition distance :: "pos \<Rightarrow> pos \<Rightarrow> int" where
  "distance p1 p2 =
     (let (x1, y1) = p1; (x2, y2) = p2 in max \<bar>x1 - x2\<bar> \<bar>y1 - y2\<bar>)"

text \<open>
  \<^verbatim>\<open>Map.is_walkable\<close>: the bounds are tested before the tile array is read, so the
  read cannot fail; the result \<open>Inl e\<close> stands for an exception all the same.
\<close>

definition is_walkable :: "Map \<Rightarrow> pos \<Rightarrow> error + bool" where
  "is_walkable m p =
     (let (w, h) = size_of m; (x, y) = p in
      if \<not> (0 \<le> x \<and> x < w \<and> 0 \<le> y \<and> y < h) then Inr False
      else (case getitem m p of
              Inl e \<Rightarrow> Inl e
            | Inr t \<Rightarrow> Inr (is_Connector t \<or> tile_in t WALKABLE)))"

text \<open>\<^verbatim>\<open>Map.is_free\<close>.\<close>

definition is_free :: "Map \<Rightarrow> pos \<Rightarrow> error + bool" where
  "is_free m p =
     (case is_walkable m p of
        Inl e \<Rightarrow> Inl e
      | Inr b \<Rightarrow> if b \<and> p \<notin> dom (pos_to_a m) then Inr True else Inr False)"

lemma is_walkable_total: "\<exists>b. is_walkable m p = Inr b"
  by (cases p)
    (auto simp: is_walkable_def getitem_def array_get_def in_array_def size_of_def
      split: option.splits)

lemma is_free_total: "\<exists>b. is_free m p = Inr b"
  using is_walkable_total [of m p] by (auto simp: is_free_def)

text \<open>The boolean that \<^verbatim>\<open>is_free\<close> returns (it never raises).\<close>

definition free :: "Map \<Rightarrow> pos \<Rightarrow> bool" where
  "free m p = (is_free m p = Inr True)"

definition walkable :: "Map \<Rightarrow> pos \<Rightarrow> bool" where
  "walkable m p = (is_walkable m p = Inr True)"

section \<open>Rings\<close>

text \<open>\<^verbatim>\<open>range(a, b)\<close> and \<^verbatim>\<open>range(a, b, -1)\<close>.\<close>

definition py_range :: "int \<Rightarrow> int \<Rightarrow> int list" where
  "py_range a b = [a..b - 1]"

definition py_range_down :: "int \<Rightarrow> int \<Rightarrow> int list" where
  "py_range_down a b = rev [b + 1..a]"

text \<open>The four loops of \<^verbatim>\<open>Map._ring\<close> that fill \<^verbatim>\<open>tiles\<close>.\<close>

definition ring_tiles :: "pos \<Rightarrow> int \<Rightarrow> pos list" where
  "ring_tiles center r =
     (let (x, y) = center in
        map (\<lambda>i. (x + i, y - r)) (py_range (- r) (r + 1))
      @ map (\<lambda>j. (x + r, y + j)) (py_range (- r + 1) (r + 1))
      @ map (\<lambda>i. (x + i, y + r)) (py_range_down (r - 1) (- r - 1))
      @ map (\<lambda>j. (x - r, y + j)) (py_range_down (r - 1) (- r)))"

text \<open>
  \<^verbatim>\<open>Map._ring\<close> with \<^verbatim>\<open>sparse=True\<close> (the default; \<^verbatim>\<open>sift\<close> is then \<^verbatim>\<open>filter\<close>).
  \<open>shuf\<close> is what \<^verbatim>\<open>rng.shuffle\<close> does to the list; \<open>filter_pred\<close> is \<open>None\<close> when the
  caller passes no predicate.
\<close>

definition ring ::
  "Map \<Rightarrow> (pos list \<Rightarrow> pos list) \<Rightarrow> pos \<Rightarrow> int \<Rightarrow> bool \<Rightarrow> bool \<Rightarrow> (pos \<Rightarrow> bool) option \<Rightarrow> bool
     \<Rightarrow> pos list" where
  "ring m shuf center radius free_only shuffle filter_pred in_map =
     (let t0 = ring_tiles center radius;
          t1 = (if in_map then filter (is_in_map m) t0 else t0);
          t2 = (if shuffle then shuf t1 else t1);
          t3 = (case filter_pred of None \<Rightarrow> t2 | Some f \<Rightarrow> filter f t2);
          t4 = (if free_only then filter (free m) t3 else t3)
      in t4)"

text \<open>\<^verbatim>\<open>Map.adjacents\<close>.\<close>

definition adjacents ::
  "Map \<Rightarrow> (pos list \<Rightarrow> pos list) \<Rightarrow> pos \<Rightarrow> bool \<Rightarrow> bool \<Rightarrow> (pos \<Rightarrow> bool) option \<Rightarrow> bool
     \<Rightarrow> pos list" where
  "adjacents m shuf p free_only shuffle filter_pred in_map =
     ring m shuf p 1 free_only shuffle filter_pred in_map"

text \<open>
  The position at index \<open>k\<close> of a counter-clockwise walk round the square of radius
  \<open>r\<close> that starts at its bottom-left corner: along the bottom edge to the right, up the
  right edge, along the top edge to the left, down the left edge.
\<close>

definition ccw_walk :: "pos \<Rightarrow> int \<Rightarrow> int \<Rightarrow> pos" where
  "ccw_walk center r k =
     (let (x, y) = center in
      if k \<le> 2 * r then (x - r + k, y - r)
      else if k \<le> 4 * r then (x + r, y - r + (k - 2 * r))
      else if k \<le> 6 * r then (x + r - (k - 4 * r), y + r)
      else (x - r, y + r - (k - 6 * r)))"


section \<open>Building maps\<close>

text \<open>\<^verbatim>\<open>Map.__init__\<close>: a map with no tile array and empty indices.\<close>

definition Map_init :: "string \<Rightarrow> Map" where
  "Map_init i =
     \<lparr>map_id = i, tiles = None, id_to_a = Map.empty, a_to_pos = Map.empty,
      pos_to_a = Map.empty, i_to_pos = Map.empty, pos_to_i = Map.empty,
      pos_to_m = Map.empty, map_to_conn = Map.empty\<rparr>"

text \<open>\<^verbatim>\<open>Builder.init\<close>: \<^verbatim>\<open>self.map.tiles = Array(width, height, fill)\<close>.\<close>

definition Builder_init :: "Map \<Rightarrow> int \<Rightarrow> int \<Rightarrow> tile \<Rightarrow> Map" where
  "Builder_init m w h fill = m\<lparr>tiles := Some \<lparr>awidth = w, aheight = h, cells = (\<lambda>p. fill)\<rparr>\<rparr>"

section \<open>Bounds of the walkability tests\<close>

text \<open>
  C10. For a position outside the map (\<open>x < 0\<close>, \<open>x \<ge> width\<close>, \<open>y < 0\<close> or
  \<open>y \<ge> height\<close>), \<^verbatim>\<open>is_walkable\<close> and \<^verbatim>\<open>is_free\<close> return \<^verbatim>\<open>False\<close>; they do not
  raise and do not read the tile array.
\<close>

theorem is_walkable_is_free_outside:
  assumes "x < 0 \<or> fst (size_of m) \<le> x \<or> y < 0 \<or> snd (size_of m) \<le> y"
  shows "is_walkable m (x, y) = Inr False \<and> is_free m (x, y) = Inr False
    \<and> is_walkable (m\<lparr>tiles := map_option (\<lambda>a. a\<lparr>cells := c\<rparr>) (tiles m)\<rparr>) (x, y) = Inr False"
proof -
  obtain w h where wh: "size_of m = (w, h)"
    by (cases "size_of m")
  have out: "\<not> (0 \<le> x \<and> x < w \<and> 0 \<le> y \<and> y < h)"
    using assms wh by auto
  have w1: "is_walkable m (x, y) = Inr False"
    using out wh by (simp add: is_walkable_def)
  have w2: "is_free m (x, y) = Inr False"
    using w1 by (simp add: is_free_def)
  have "size_of (m\<lparr>tiles := map_option (\<lambda>a. a\<lparr>cells := c\<rparr>) (tiles m)\<rparr>) = (w, h)"
    using wh by (simp add: size_of_def split: option.splits)
  then have w3:
    "is_walkable (m\<lparr>tiles := map_option (\<lambda>a. a\<lparr>cells := c\<rparr>) (tiles m)\<rparr>) (x, y) = Inr False"
    using out by (simp add: is_walkable_def)
  from w1 w2 w3 show ?thesis by simp
qed


theorem is_walkable_is_free_outside_witness:
  "is_walkable (Builder_init (Map_init ''m'') 3 3 (Plain FLOOR)) (3, 0) = Inr False
   \<and> is_free (Builder_init (Map_init ''m'') 3 3 (Plain FLOOR)) (3, 0) = Inr False
   \<and> is_walkable (Builder_init (Map_init ''m'') 3 3 (Plain FLOOR)) (2, 0) = Inr True"
proof -
  have "(3::int) < 0 \<or> fst (size_of (Builder_init (Map_init ''m'') 3 3 (Plain FLOOR))) \<le> 3
      \<or> (0::int) < 0 \<or> snd (size_of (Builder_init (Map_init ''m'') 3 3 (Plain FLOOR))) \<le> 0"
    by (simp add: size_of_def Builder_init_def Map_init_def)
  from is_walkable_is_free_outside [OF this]
  show ?thesis
    by (simp add: is_walkable_def getitem_def array_get_def in_array_def size_of_def
        Builder_init_def Map_init_def WALKABLE_def)
qed


section \<open>The ring enumeration\<close>

lemma length_py_range: "length (py_range a b) = nat (b - a)"
  by (simp add: py_range_def)

lemma nth_py_range: "a + int i < b \<Longrightarrow> py_range a b ! i = a + int i"
  by (simp add: py_range_def)

lemma length_py_range_down: "length (py_range_down a b) = nat (a - b)"
  by (simp add: py_range_down_def)

lemma nth_py_range_down: "b < a - int i \<Longrightarrow> py_range_down a b ! i = a - int i"
proof -
  assume "b < a - int i"
  then have h: "i < nat (a - b)" by linarith
  then have "nat (a - b) - Suc i < length [b + 1..a]" by simp
  have "b + 1 + int (nat (a - b) - Suc i) \<le> a" using h by linarith
  then have "[b + 1..a] ! (nat (a - b) - Suc i) = b + 1 + int (nat (a - b) - Suc i)"
    by (rule nth_upto)
  also have "\<dots> = a - int i" using h by linarith
  finally show ?thesis using h by (simp add: py_range_down_def rev_nth)
qed

lemma length_ring_tiles: "1 \<le> r \<Longrightarrow> length (ring_tiles c r) = nat (8 * r)"
  by (cases c) (simp add: ring_tiles_def length_py_range length_py_range_down)

lemma nth_ring_tiles:
  assumes "1 \<le> r" "k < nat (8 * r)"
  shows "ring_tiles c r ! k = ccw_walk c r (int k)"
proof -
  obtain x y where cxy: "c = (x, y)" by (cases c)
  define A where "A = map (\<lambda>i. (x + i, y - r)) (py_range (- r) (r + 1))"
  define B where "B = map (\<lambda>j. (x + r, y + j)) (py_range (- r + 1) (r + 1))"
  define C where "C = map (\<lambda>i. (x + i, y + r)) (py_range_down (r - 1) (- r - 1))"
  define D where "D = map (\<lambda>j. (x - r, y + j)) (py_range_down (r - 1) (- r))"
  have lA: "length A = nat (2 * r + 1)" and lB: "length B = nat (2 * r)"
    and lC: "length C = nat (2 * r)" and lD: "length D = nat (2 * r - 1)"
    by (simp_all add: A_def B_def C_def D_def length_py_range length_py_range_down)
  have nA: "A ! i = (x + (- r + int i), y - r)" if "i < nat (2 * r + 1)" for i
    using that by (simp add: A_def length_py_range nth_py_range)
  have nB: "B ! i = (x + r, y + (- r + 1 + int i))" if "i < nat (2 * r)" for i
    using that by (simp add: B_def length_py_range nth_py_range)
  have nC: "C ! i = (x + (r - 1 - int i), y + r)" if "i < nat (2 * r)" for i
    using that by (simp add: C_def length_py_range_down nth_py_range_down)
  have nD: "D ! i = (x - r, y + (r - 1 - int i))" if "i < nat (2 * r - 1)" for i
    using that by (simp add: D_def length_py_range_down nth_py_range_down)
  have rt: "ring_tiles c r = A @ B @ C @ D"
    by (simp add: cxy ring_tiles_def A_def B_def C_def D_def)
  consider (a) "int k \<le> 2 * r" | (b) "2 * r < int k" "int k \<le> 4 * r"
    | (c) "4 * r < int k" "int k \<le> 6 * r" | (d) "6 * r < int k"
    by linarith
  then show ?thesis
  proof cases
    case a
    then have k: "k < nat (2 * r + 1)" using assms by linarith
    then have "ring_tiles c r ! k = A ! k" by (simp add: rt nth_append lA)
    then show ?thesis using a k by (simp add: nA cxy ccw_walk_def)
  next
    case b
    define k' where "k' = k - nat (2 * r + 1)"
    have k': "int k' = int k - (2 * r + 1)" "k' < nat (2 * r)" "k = length A + k'"
      using b assms unfolding k'_def lA by linarith+
    have "ring_tiles c r ! k = (B @ C @ D) ! k'"
      unfolding rt k'(3) by (rule nth_append_length_plus)
    also have "\<dots> = B ! k'" using k'(2) by (simp add: nth_append lB)
    finally show ?thesis using b k'(1,2) by (simp add: nB cxy ccw_walk_def)
  next
    case c
    define k' where "k' = k - nat (4 * r + 1)"
    have k': "int k' = int k - (4 * r + 1)" "k' < nat (2 * r)"
      "k = length A + (length B + k')"
      using c assms unfolding k'_def lA lB by linarith+
    have "ring_tiles c r ! k = (B @ C @ D) ! (length B + k')"
      unfolding rt k'(3) by (rule nth_append_length_plus)
    also have "\<dots> = (C @ D) ! k'" by (rule nth_append_length_plus)
    also have "\<dots> = C ! k'" using k'(2) by (simp add: nth_append lC)
    finally show ?thesis using c k'(1,2) by (simp add: nC cxy ccw_walk_def)
  next
    case d
    define k' where "k' = k - nat (6 * r + 1)"
    have k': "int k' = int k - (6 * r + 1)" "k' < nat (2 * r - 1)"
      "k = length A + (length B + (length C + k'))"
      using d assms unfolding k'_def lA lB lC by linarith+
    have "ring_tiles c r ! k = (B @ C @ D) ! (length B + (length C + k'))"
      unfolding rt k'(3) by (rule nth_append_length_plus)
    also have "\<dots> = (C @ D) ! (length C + k')" by (rule nth_append_length_plus)
    also have "\<dots> = D ! k'" by (rule nth_append_length_plus)
    finally show ?thesis using d k'(1,2) by (simp add: nD cxy ccw_walk_def)
  qed
qed

lemma ccw_walk_inj:
  assumes "1 \<le> r" "0 \<le> i" "i < 8 * r" "0 \<le> j" "j < 8 * r" "ccw_walk c r i = ccw_walk c r j"
  shows "i = j"
  using assms by (cases c) (auto simp: ccw_walk_def split: if_splits)

lemma ccw_walk_distance:
  assumes "1 \<le> r" "0 \<le> i" "i < 8 * r" 
  shows "distance c (ccw_walk c r i) = r"
  using assms by (cases c) (auto simp: ccw_walk_def distance_def split: if_splits)


text \<open>
  C5. For a radius \<open>r \<ge> 1\<close> and a centre such that the whole ring lies inside the map,
  \<^verbatim>\<open>_ring(center, r)\<close> with no filter predicate, \<^verbatim>\<open>free=False\<close> and
  \<^verbatim>\<open>shuffle=False\<close> returns exactly \<open>8 r\<close> distinct coordinates, each at grid distance
  exactly \<open>r\<close> from the centre, in the order of the counter-clockwise walk that starts at
  the bottom-left corner of the ring.
\<close>

theorem ring_unfiltered:
  assumes r: "1 \<le> r"
    and inside: "\<forall>t \<in> set (ring_tiles center r). is_in_map m t"
  shows "length (ring m shuf center r False False None True) = nat (8 * r)
    \<and> distinct (ring m shuf center r False False None True)
    \<and> (\<forall>t \<in> set (ring m shuf center r False False None True). distance center t = r)
    \<and> (\<forall>k < nat (8 * r).
          ring m shuf center r False False None True ! k = ccw_walk center r (int k))"
proof -
  have eq: "ring m shuf center r False False None True = ring_tiles center r"
    using inside by (simp add: ring_def)
  have len: "length (ring_tiles center r) = nat (8 * r)"
    using r by (rule length_ring_tiles)
  have nth: "ring_tiles center r ! k = ccw_walk center r (int k)" if "k < nat (8 * r)" for k
    using r that by (rule nth_ring_tiles)
  have dist: "distinct (ring_tiles center r)"
    unfolding distinct_conv_nth
  proof (intro allI impI)
    fix i j
    assume i: "i < length (ring_tiles center r)" and j: "j < length (ring_tiles center r)"
      and ne: "i \<noteq> j"
    have "ccw_walk center r (int i) \<noteq> ccw_walk center r (int j)"
    proof
      assume "ccw_walk center r (int i) = ccw_walk center r (int j)"
      moreover have "int i < 8 * r" "int j < 8 * r" using i j len by linarith+
      ultimately have "int i = int j" using r by (intro ccw_walk_inj [of r]) auto
      then show False using ne by simp
    qed
    then show "ring_tiles center r ! i \<noteq> ring_tiles center r ! j"
      using i j len nth by simp
  qed
  have far: "distance center t = r" if "t \<in> set (ring_tiles center r)" for t
  proof -
    from that obtain k where k: "k < length (ring_tiles center r)" "t = ring_tiles center r ! k"
      by (auto simp: in_set_conv_nth)
    then have "t = ccw_walk center r (int k)" using nth len by simp
    moreover have "int k < 8 * r" using k len by linarith
    ultimately show ?thesis using r by (simp add: ccw_walk_distance)
  qed
  show ?thesis using len dist far nth by (simp add: eq)
qed

lemma ring_tiles_1_1: "ring_tiles (1, 1) 1 =
    [(0, 0), (1, 0), (2, 0), (2, 1), (2, 2), (1, 2), (0, 2), (0, 1)]"
  by (simp add: ring_tiles_def py_range_def py_range_down_def upto_rec1)

theorem ring_unfiltered_witness:
  "length (ring (Builder_init (Map_init ''m'') 3 3 (Plain FLOOR)) id (1, 1) 1 False False None True) = 8
   \<and> ring (Builder_init (Map_init ''m'') 3 3 (Plain FLOOR)) id (1, 1) 1 False False None True ! 3
       = (2, 1)"
proof -
  have inside: "\<forall>t \<in> set (ring_tiles (1, 1) 1).
      is_in_map (Builder_init (Map_init ''m'') 3 3 (Plain FLOOR)) t"
    by (simp add: ring_tiles_1_1 is_in_map_def size_of_def Builder_init_def Map_init_def)
  have "(3::nat) < nat (8 * 1)" by simp
  then show ?thesis
    using ring_unfiltered [of 1 "(1, 1)" "Builder_init (Map_init ''m'') 3 3 (Plain FLOOR)" id, OF _ inside]
    by (simp add: ccw_walk_def)
qed

section \<open>Connecting two maps\<close>

text \<open>
  \<^verbatim>\<open>Map.connect\<close> mutates two map objects, \<^verbatim>\<open>self\<close> and \<^verbatim>\<open>there\<close>, which may be
  the same object. The store maps object references to map states; every statement of
  the method reads the store that the statements before it left. A \<^verbatim>\<open>Connector\<close> object
  sits in one cell (\<^verbatim>\<open>Builder.staircase\<close> creates one per cell), so setting its
  \<^verbatim>\<open>dest_map\<close> attribute rewrites that cell.
\<close>

type_synonym ref = nat
type_synonym store = "ref \<Rightarrow> Map"

text \<open>\<^verbatim>\<open>self[pos].dest_map = d\<close>.\<close>

definition set_dest_map :: "Map \<Rightarrow> pos \<Rightarrow> string \<Rightarrow> error + Map" where
  "set_dest_map m p d =
     (case getitem m p of
        Inl e \<Rightarrow> Inl e
      | Inr (Plain t) \<Rightarrow> Inl AttributeError
      | Inr (Connector c old) \<Rightarrow> setitem m p (Connector c (Some d)))"

text \<open>\<^verbatim>\<open>Map.connect\<close>. The list \<^verbatim>\<open>[self[pos1], there[pos2]]\<close> is built before the loop tests its elements.\<close>

definition connect :: "store \<Rightarrow> ref \<Rightarrow> pos \<Rightarrow> ref \<Rightarrow> pos \<Rightarrow> error + store" where
  "connect s self pos1 there pos2 =
     (case getitem (s self) pos1 of
        Inl e \<Rightarrow> Inl e
      | Inr tile1 \<Rightarrow>
     (case getitem (s there) pos2 of
        Inl e \<Rightarrow> Inl e
      | Inr tile2 \<Rightarrow>
     if \<not> is_Connector tile1 then Inl TypeError
     else if \<not> is_Connector tile2 then Inl TypeError
     else
       let s1 = s(self := (s self)\<lparr>map_to_conn := (map_to_conn (s self))(map_id (s there) \<mapsto> pos1)\<rparr>)
       in (case set_dest_map (s1 self) pos1 (map_id (s1 there)) of
             Inl e \<Rightarrow> Inl e
           | Inr m2 \<Rightarrow>
       let s2 = s1(self := m2);
           s3 = s2(there := (s2 there)\<lparr>map_to_conn := (map_to_conn (s2 there))(map_id (s2 self) \<mapsto> pos2)\<rparr>)
       in (case set_dest_map (s3 there) pos2 (map_id (s3 self)) of
             Inl e \<Rightarrow> Inl e
           | Inr m4 \<Rightarrow> Inr (s3(there := m4))))))"

text \<open>\<^verbatim>\<open>Map.arrival_pos\<close>: a dictionary lookup, a KeyError when the key is absent.\<close>

definition arrival_pos :: "Map \<Rightarrow> string \<Rightarrow> error + pos" where
  "arrival_pos m mapid = (case map_to_conn m mapid of None \<Rightarrow> Inl KeyError | Some p \<Rightarrow> Inr p)"

text \<open>The tile at \<open>p\<close> can be read and is a \<^verbatim>\<open>Connector\<close>.\<close>

definition holds_Connector :: "Map \<Rightarrow> pos \<Rightarrow> bool" where
  "holds_Connector m p = (case getitem m p of Inr (Connector c d) \<Rightarrow> True | _ \<Rightarrow> False)"

lemma getitem_setitem:
  "setitem m p t = Inr m' \<Longrightarrow> getitem m' q = (if q = p then Inr t else getitem m q)"
  by (auto simp: setitem_def getitem_def array_set_def array_get_def in_array_def
      split: option.splits if_splits sum.splits)

lemma setitem_fields:
  "setitem m p t = Inr m' \<Longrightarrow> map_id m' = map_id m \<and> map_to_conn m' = map_to_conn m"
  by (auto simp: setitem_def split: option.splits sum.splits)

lemma setitem_ok:
  "getitem m p = Inr t0 \<Longrightarrow> \<exists>m'. setitem m p t = Inr m'"
  by (auto simp: setitem_def getitem_def array_set_def array_get_def
      split: option.splits if_splits)

lemma getitem_map_to_conn_update [simp]:
  "getitem (m\<lparr>map_to_conn := f\<rparr>) p = getitem m p"
  by (simp add: getitem_def)

lemma set_dest_map_ok:
  assumes "getitem m p = Inr (Connector c d0)"
  shows "\<exists>m'. set_dest_map m p d = Inr m' \<and> getitem m' p = Inr (Connector c (Some d))
     \<and> map_id m' = map_id m \<and> map_to_conn m' = map_to_conn m"
proof -
  from setitem_ok [OF assms] obtain m' where m': "setitem m p (Connector c (Some d)) = Inr m'"
    by blast
  then show ?thesis
    using assms getitem_setitem [OF m', of p] setitem_fields [OF m']
    by (simp add: set_dest_map_def)
qed

text \<open>
  C6. If \<open>pos1\<close> on map \<open>self\<close> and \<open>pos2\<close> on another map \<open>there\<close> both hold
  Connector tiles, then \<^verbatim>\<open>self.connect(pos1, there, pos2)\<close> succeeds and the link is
  symmetric: \<^verbatim>\<open>self.arrival_pos(there.id) == pos1\<close>,
  \<^verbatim>\<open>there.arrival_pos(self.id) == pos2\<close>, and the destination field of each endpoint
  tile is the identifier of the other map. When either endpoint does not hold a Connector,
  \<^verbatim>\<open>connect\<close> fails.
\<close>

theorem connect_symmetric:
  shows "(self \<noteq> there \<and> getitem (s self) pos1 = Inr (Connector c1 d1)
            \<and> getitem (s there) pos2 = Inr (Connector c2 d2)
          \<longrightarrow> (\<exists>s'. connect s self pos1 there pos2 = Inr s'
                \<and> arrival_pos (s' self) (map_id (s' there)) = Inr pos1
                \<and> arrival_pos (s' there) (map_id (s' self)) = Inr pos2
                \<and> getitem (s' self) pos1 = Inr (Connector c1 (Some (map_id (s' there))))
                \<and> getitem (s' there) pos2 = Inr (Connector c2 (Some (map_id (s' self))))
                \<and> map_id (s' self) = map_id (s self) \<and> map_id (s' there) = map_id (s there)))
     \<and> (\<not> holds_Connector (s self) pos1 \<or> \<not> holds_Connector (s there) pos2
          \<longrightarrow> (\<exists>e. connect s self pos1 there pos2 = Inl e))"
proof (intro conjI impI)
  assume h: "self \<noteq> there \<and> getitem (s self) pos1 = Inr (Connector c1 d1)
            \<and> getitem (s there) pos2 = Inr (Connector c2 d2)"
  define s1 where "s1 = s(self := (s self)\<lparr>map_to_conn := (map_to_conn (s self))(map_id (s there) \<mapsto> pos1)\<rparr>)"
  have g1: "getitem (s1 self) pos1 = Inr (Connector c1 d1)" using h by (simp add: s1_def)
  from set_dest_map_ok [OF g1, of "map_id (s1 there)"] obtain m2 where
    m2: "set_dest_map (s1 self) pos1 (map_id (s1 there)) = Inr m2"
      "getitem m2 pos1 = Inr (Connector c1 (Some (map_id (s1 there))))"
      "map_id m2 = map_id (s1 self)" "map_to_conn m2 = map_to_conn (s1 self)"
    by blast
  define s3 where "s3 = (s1(self := m2))(there := ((s1(self := m2)) there)\<lparr>map_to_conn := (map_to_conn ((s1(self := m2)) there))(map_id ((s1(self := m2)) self) \<mapsto> pos2)\<rparr>)"
  have g3: "getitem (s3 there) pos2 = Inr (Connector c2 d2)" using h by (simp add: s3_def s1_def)
  from set_dest_map_ok [OF g3, of "map_id (s3 self)"] obtain m4 where
    m4: "set_dest_map (s3 there) pos2 (map_id (s3 self)) = Inr m4"
      "getitem m4 pos2 = Inr (Connector c2 (Some (map_id (s3 self))))"
      "map_id m4 = map_id (s3 there)" "map_to_conn m4 = map_to_conn (s3 there)"
    by blast
  have ne: "self \<noteq> there" using h by simp
  have s3': "s3 = s1(self := m2,
      there := (s1 there)\<lparr>map_to_conn := (map_to_conn (s1 there))(map_id m2 \<mapsto> pos2)\<rparr>)"
    using ne by (simp add: s3_def)
  have m4': "set_dest_map ((s1 there)\<lparr>map_to_conn := (map_to_conn (s1 there))(map_id m2 \<mapsto> pos2)\<rparr>)
      pos2 (map_id m2) = Inr m4"
    using m4(1) ne by (simp add: s3')
  have c: "connect s self pos1 there pos2 = Inr (s3(there := m4))"
    using h m2(1) m4' ne
    by (simp add: connect_def Let_def s1_def [symmetric] s3')
  have ids: "map_id (s3 self) = map_id (s self)" "map_id (s3 there) = map_id (s there)"
     "map_id (s1 there) = map_id (s there)"
    using h m2(3) by (simp_all add: s3_def s1_def)
  have "arrival_pos ((s3(there := m4)) self) (map_id ((s3(there := m4)) there)) = Inr pos1"
    using h m2 m4 ids by (simp add: arrival_pos_def s3_def s1_def)
  moreover have "arrival_pos ((s3(there := m4)) there) (map_id ((s3(there := m4)) self)) = Inr pos2"
    using h m2 m4 ids by (simp add: arrival_pos_def s3_def s1_def)
  moreover have "getitem ((s3(there := m4)) self) pos1
      = Inr (Connector c1 (Some (map_id ((s3(there := m4)) there))))"
    using h m2 m4 ids by (simp add: s3_def)
  moreover have "getitem ((s3(there := m4)) there) pos2
      = Inr (Connector c2 (Some (map_id ((s3(there := m4)) self))))"
    using h m2 m4 ids by simp
  moreover have "map_id ((s3(there := m4)) self) = map_id (s self)"
     "map_id ((s3(there := m4)) there) = map_id (s there)"
    using h m4 ids by simp_all
  ultimately show "\<exists>s'. connect s self pos1 there pos2 = Inr s'
                \<and> arrival_pos (s' self) (map_id (s' there)) = Inr pos1
                \<and> arrival_pos (s' there) (map_id (s' self)) = Inr pos2
                \<and> getitem (s' self) pos1 = Inr (Connector c1 (Some (map_id (s' there))))
                \<and> getitem (s' there) pos2 = Inr (Connector c2 (Some (map_id (s' self))))
                \<and> map_id (s' self) = map_id (s self) \<and> map_id (s' there) = map_id (s there)"
    using c by simp
next
  assume "\<not> holds_Connector (s self) pos1 \<or> \<not> holds_Connector (s there) pos2"
  then show "\<exists>e. connect s self pos1 there pos2 = Inl e"
    by (auto simp: connect_def holds_Connector_def split: sum.splits tile.splits)
qed


text \<open>Two one-cell maps, each holding a staircase.\<close>

definition two_maps :: store where
  "two_maps = (\<lambda>r. if r = 0
      then Builder_init (Map_init ''A'') 1 1 (Connector ''>'' None)
      else Builder_init (Map_init ''B'') 1 1 (Connector ''<'' None))"

theorem connect_symmetric_witness:
  "\<exists>s'. connect two_maps 0 (0, 0) 1 (0, 0) = Inr s'
     \<and> arrival_pos (s' 0) ''B'' = Inr (0, 0) \<and> arrival_pos (s' 1) ''A'' = Inr (0, 0)
     \<and> getitem (s' 0) (0, 0) = Inr (Connector ''>'' (Some ''B''))
     \<and> getitem (s' 1) (0, 0) = Inr (Connector ''<'' (Some ''A''))"
proof -
  have h: "(0::nat) \<noteq> 1 \<and> getitem (two_maps 0) (0, 0) = Inr (Connector ''>'' None)
      \<and> getitem (two_maps 1) (0, 0) = Inr (Connector ''<'' None)"
    by (simp add: two_maps_def getitem_def array_get_def in_array_def Builder_init_def Map_init_def)
  have ids: "map_id (two_maps 0) = ''A''" "map_id (two_maps 1) = ''B''"
    by (simp_all add: two_maps_def Builder_init_def Map_init_def)
  from connect_symmetric [of 0 1 two_maps "(0, 0)" "''>''" None "(0, 0)" "''<''" None] h
  obtain s' where "connect two_maps 0 (0, 0) 1 (0, 0) = Inr s'"
    "arrival_pos (s' 0) (map_id (s' 1)) = Inr (0, 0)"
    "arrival_pos (s' 1) (map_id (s' 0)) = Inr (0, 0)"
    "getitem (s' 0) (0, 0) = Inr (Connector ''>'' (Some (map_id (s' 1))))"
    "getitem (s' 1) (0, 0) = Inr (Connector ''<'' (Some (map_id (s' 0))))"
    "map_id (s' 0) = map_id (two_maps 0)" "map_id (s' 1) = map_id (two_maps 1)"
    by blast
  then show ?thesis using ids by auto
qed

section \<open>Line of sight\<close>

text \<open>
  \<^verbatim>\<open>Map.line_of_sight\<close> interpolates between the centres of the two tiles in Python
  floats and truncates with \<^verbatim>\<open>int()\<close>. The model computes the same expression exactly,
  in rationals. Before the division every value is a multiple of \<open>1/2\<close> and is exact in
  binary floating point; the rounded quotient has the same integer part as the exact one as
  long as the product of a coordinate and the number of steps stays below \<open>2\<^sup>5\<^sup>2\<close>, so on
  maps of any size that fits in memory the floats give these same integers.
\<close>

text \<open>\<^verbatim>\<open>int(q)\<close>: truncation towards zero.\<close>

definition py_int :: "rat \<Rightarrow> int" where
  "py_int q = (if 0 \<le> q then \<lfloor>q\<rfloor> else \<lceil>q\<rceil>)"

text \<open>\<^verbatim>\<open>int(((mult-i)*x1 + i*x2) / mult)\<close> with \<^verbatim>\<open>x1 = c1 + 0.5\<close>, \<^verbatim>\<open>x2 = c2 + 0.5\<close>.\<close>

definition interpolate :: "int \<Rightarrow> int \<Rightarrow> int \<Rightarrow> int \<Rightarrow> int" where
  "interpolate mlt i c1 c2 =
     py_int (((of_int (mlt - i)) * (of_int c1 + 1 / 2) + of_int i * (of_int c2 + 1 / 2))
             / of_int mlt)"

text \<open>The tile that iteration \<open>i\<close> of the loop samples.\<close>

definition sample :: "pos \<Rightarrow> pos \<Rightarrow> int \<Rightarrow> pos" where
  "sample pos1 pos2 i =
     (let nb_steps = distance pos1 pos2 + 1;
          mlt = max 1 (nb_steps - 1);
          (x1, y1) = pos1; (x2, y2) = pos2
      in (interpolate mlt i x1 x2, interpolate mlt i y1 y2))"

text \<open>The \<^verbatim>\<open>nb_steps = distance(pos1, pos2) + 1\<close> sampled tiles, in order.\<close>

definition samples :: "pos \<Rightarrow> pos \<Rightarrow> pos list" where
  "samples pos1 pos2 = map (sample pos1 pos2) (py_range 0 (distance pos1 pos2 + 1))"

text \<open>
  The loop of \<^verbatim>\<open>line_of_sight\<close> over the remaining values of \<open>i\<close>: it reads
  \<^verbatim>\<open>self.tiles[x][y]\<close>, appends the tile to \<^verbatim>\<open>steps\<close> when it is in
  \<^verbatim>\<open>SEE_THROUGH\<close> and returns \<^verbatim>\<open>None\<close> otherwise.
\<close>

fun los_loop :: "Map \<Rightarrow> pos \<Rightarrow> pos \<Rightarrow> int list \<Rightarrow> pos list \<Rightarrow> error + pos list option" where
  "los_loop m pos1 pos2 [] steps = Inr (Some steps)"
| "los_loop m pos1 pos2 (i # is) steps =
     (let p = sample pos1 pos2 i in
      case tiles m of
        None \<Rightarrow> Inl TypeError
      | Some a \<Rightarrow>
          (case array_get a p of
             Inl e \<Rightarrow> Inl e
           | Inr t \<Rightarrow>
               if tile_in t SEE_THROUGH then los_loop m pos1 pos2 is (steps @ [p])
               else Inr None))"

definition line_of_sight :: "Map \<Rightarrow> pos \<Rightarrow> pos \<Rightarrow> error + pos list option" where
  "line_of_sight m pos1 pos2 =
     los_loop m pos1 pos2 (py_range 0 (distance pos1 pos2 + 1)) []"

text \<open>The tile at \<open>p\<close> is in \<^verbatim>\<open>SEE_THROUGH\<close> (Floor or open Doorway); it is in \<^verbatim>\<open>WALLS\<close>.\<close>

definition see_through_at :: "Map \<Rightarrow> pos \<Rightarrow> bool" where
  "see_through_at m p = (case getitem m p of Inr t \<Rightarrow> tile_in t SEE_THROUGH | Inl e \<Rightarrow> False)"

definition wall_at :: "Map \<Rightarrow> pos \<Rightarrow> bool" where
  "wall_at m p = (case getitem m p of Inr t \<Rightarrow> tile_in t WALLS | Inl e \<Rightarrow> False)"

lemma interpolate_between:
  assumes "0 < mlt" "0 \<le> i" "i \<le> mlt" "0 \<le> c1" "0 \<le> c2"
  shows "min c1 c2 \<le> interpolate mlt i c1 c2 \<and> interpolate mlt i c1 c2 \<le> max c1 c2"
proof -
  define lo where "lo = min c1 c2"
  define hi where "hi = max c1 c2"
  define A :: rat where "A = of_int (mlt - i)"
  define B :: rat where "B = of_int i"
  define M :: rat where "M = of_int mlt"
  define X1 :: rat where "X1 = of_int c1 + 1 / 2"
  define X2 :: rat where "X2 = of_int c2 + 1 / 2"
  define L :: rat where "L = of_int lo + 1 / 2"
  define H :: rat where "H = of_int hi + 1 / 2"
  define v :: rat where "v = (A * X1 + B * X2) / M"
  have m0: "0 < M" using assms by (simp add: M_def)
  have a: "0 \<le> A" "0 \<le> B" using assms by (simp_all add: A_def B_def)
  have ab: "A + B = M" by (simp add: A_def B_def M_def)
  have b1: "L \<le> X1" "X1 \<le> H" and b2: "L \<le> X2" "X2 \<le> H"
    by (simp_all add: lo_def hi_def L_def H_def X1_def X2_def)
  have "A * L + B * L \<le> A * X1 + B * X2"
    using a b1(1) b2(1) by (intro add_mono mult_left_mono)
  moreover have "A * L + B * L = M * L" by (simp add: ab [symmetric] distrib_right)
  ultimately have "L * M \<le> A * X1 + B * X2" by (simp add: mult.commute)
  then have lo_v: "L \<le> v"
    using m0 by (simp add: v_def pos_le_divide_eq)
  have "A * X1 + B * X2 \<le> A * H + B * H"
    using a b1(2) b2(2) by (intro add_mono mult_left_mono)
  moreover have "A * H + B * H = M * H" by (simp add: ab [symmetric] distrib_right)
  ultimately have "A * X1 + B * X2 \<le> H * M" by (simp add: mult.commute)
  then have v_hi: "v \<le> H"
    using m0 by (simp add: v_def pos_divide_le_eq)
  have lo0: "0 \<le> lo" using assms by (simp add: lo_def)
  then have "(0::rat) \<le> of_int lo" by simp
  then have v0: "0 \<le> v" using lo_v unfolding L_def by linarith
  have "of_int lo \<le> v" using lo_v unfolding L_def by linarith
  then have f1: "lo \<le> \<lfloor>v\<rfloor>" by (simp add: le_floor_iff)
  have "v < of_int (hi + 1)" using v_hi unfolding H_def by simp
  then have "\<lfloor>v\<rfloor> < hi + 1" by (simp only: floor_less_iff)
  then have f2: "\<lfloor>v\<rfloor> \<le> hi" by simp
  have "interpolate mlt i c1 c2 = py_int v"
    by (simp add: interpolate_def v_def A_def B_def M_def X1_def X2_def)
  then show ?thesis using f1 f2 v0 by (simp add: py_int_def lo_def hi_def)
qed

lemma sample_in_map:
  assumes "is_in_map m pos1" "is_in_map m pos2" "0 \<le> i" "i \<le> distance pos1 pos2"
  shows "is_in_map m (sample pos1 pos2 i)"
proof -
  obtain x1 y1 x2 y2 where p: "pos1 = (x1, y1)" "pos2 = (x2, y2)"
    by (cases pos1, cases pos2) auto
  obtain w h where wh: "size_of m = (w, h)" by (cases "size_of m")
  define mlt where "mlt = max 1 (distance pos1 pos2 + 1 - 1)"
  have m: "0 < mlt" "i \<le> mlt" using assms by (simp_all add: mlt_def)
  have b: "0 \<le> x1" "x1 < w" "0 \<le> y1" "y1 < h" "0 \<le> x2" "x2 < w" "0 \<le> y2" "y2 < h"
    using assms(1,2) by (simp_all add: is_in_map_def wh p)
  from interpolate_between [OF m(1) assms(3) m(2) b(1) b(5)]
  have x: "0 \<le> interpolate mlt i x1 x2" "interpolate mlt i x1 x2 < w" using b by linarith+
  from interpolate_between [OF m(1) assms(3) m(2) b(3) b(7)]
  have y: "0 \<le> interpolate mlt i y1 y2" "interpolate mlt i y1 y2 < h" using b by linarith+
  have "sample pos1 pos2 i = (interpolate mlt i x1 x2, interpolate mlt i y1 y2)"
    by (simp add: sample_def mlt_def p Let_def)
  then show ?thesis using x y by (simp add: is_in_map_def wh)
qed

lemma getitem_in_map: "is_in_map m p \<Longrightarrow> \<exists>t. getitem m p = Inr t"
  by (cases p)
    (auto simp: is_in_map_def size_of_def getitem_def array_get_def in_array_def
      split: option.splits)

lemma los_loop_result:
  assumes "\<forall>i \<in> set is. is_in_map m (sample pos1 pos2 i)"
  shows "los_loop m pos1 pos2 is steps =
    (if \<forall>i \<in> set is. see_through_at m (sample pos1 pos2 i)
     then Inr (Some (steps @ map (sample pos1 pos2) is)) else Inr None)"
  using assms
proof (induction "is" arbitrary: steps)
  case Nil
  then show ?case by simp
next
  case (Cons i "is")
  from Cons.prems have "is_in_map m (sample pos1 pos2 i)" by simp
  from getitem_in_map [OF this] obtain t where t: "getitem m (sample pos1 pos2 i) = Inr t"
    by blast
  then obtain a where a: "tiles m = Some a" "array_get a (sample pos1 pos2 i) = Inr t"
    by (auto simp: getitem_def split: option.splits)
  have st: "see_through_at m (sample pos1 pos2 i) = tile_in t SEE_THROUGH"
    by (simp add: see_through_at_def t)
  have IH: "los_loop m pos1 pos2 is (steps @ [sample pos1 pos2 i]) =
    (if \<forall>i \<in> set is. see_through_at m (sample pos1 pos2 i)
     then Inr (Some ((steps @ [sample pos1 pos2 i]) @ map (sample pos1 pos2) is)) else Inr None)"
    using Cons.prems by (intro Cons.IH) simp
  show ?case using a st IH by (simp add: Let_def)
qed

lemma wall_not_see_through: "wall_at m p \<Longrightarrow> \<not> see_through_at m p"
  by (auto simp: wall_at_def see_through_at_def WALLS_def SEE_THROUGH_def
      split: sum.splits tile.splits elim: tile_in.elims)

text \<open>
  C4 (amended). For in-map positions \<open>pos1\<close> and \<open>pos2\<close>, \<^verbatim>\<open>line_of_sight\<close> samples
  \<open>distance(pos1, pos2) + 1\<close> tiles. It returns \<^verbatim>\<open>None\<close> whenever one of them is not
  see-through (neither Floor nor an open Doorway), in particular whenever one is a Wall, and
  otherwise returns the list of the \<open>distance(pos1, pos2) + 1\<close> sampled coordinates. It
  never raises.
\<close>

theorem line_of_sight_see_through:
  assumes "is_in_map m pos1" "is_in_map m pos2"
  shows "length (samples pos1 pos2) = nat (distance pos1 pos2 + 1)
    \<and> line_of_sight m pos1 pos2 =
        (if \<forall>p \<in> set (samples pos1 pos2). see_through_at m p
         then Inr (Some (samples pos1 pos2)) else Inr None)
    \<and> ((\<exists>p \<in> set (samples pos1 pos2). wall_at m p) \<longrightarrow> line_of_sight m pos1 pos2 = Inr None)"
proof -
  have inm: "\<forall>i \<in> set (py_range 0 (distance pos1 pos2 + 1)). is_in_map m (sample pos1 pos2 i)"
    using sample_in_map [OF assms] by (auto simp: py_range_def)
  have los: "line_of_sight m pos1 pos2 =
        (if \<forall>p \<in> set (samples pos1 pos2). see_through_at m p
         then Inr (Some (samples pos1 pos2)) else Inr None)"
    using los_loop_result [OF inm, of "[]"] by (simp add: line_of_sight_def samples_def)
  have len: "length (samples pos1 pos2) = nat (distance pos1 pos2 + 1)"
    by (simp add: samples_def length_py_range)
  have "line_of_sight m pos1 pos2 = Inr None" if "\<exists>p \<in> set (samples pos1 pos2). wall_at m p"
    using that los wall_not_see_through by auto
  then show ?thesis using los len by blast
qed


lemma interpolate_div:
  assumes "0 < mlt" "0 \<le> (mlt - i) * (2 * c1 + 1) + i * (2 * c2 + 1)"
  shows "interpolate mlt i c1 c2 = ((mlt - i) * (2 * c1 + 1) + i * (2 * c2 + 1)) div (2 * mlt)"
proof -
  define n where "n = (mlt - i) * (2 * c1 + 1) + i * (2 * c2 + 1)"
  define v :: rat where
    "v = ((of_int (mlt - i)) * (of_int c1 + 1 / 2) + of_int i * (of_int c2 + 1 / 2)) / of_int mlt"
  have "v = of_int n / of_int (2 * mlt)"
    using assms(1) by (simp add: v_def n_def field_simps)
  moreover have "(0::rat) \<le> of_int n / of_int (2 * mlt)"
    using assms unfolding n_def [symmetric] by (intro divide_nonneg_nonneg) simp_all
  ultimately have "py_int v = \<lfloor>of_int n / of_int (2 * mlt) :: rat\<rfloor>"
    by (simp add: py_int_def)
  also have "\<dots> = n div (2 * mlt)" by (rule floor_divide_of_int_eq)
  finally show ?thesis by (simp add: interpolate_def v_def n_def)
qed

text \<open>A corridor of three tiles whose middle tile is solid rock.\<close>

definition corridor_with_rock :: Map where
  "corridor_with_rock = (Map_init ''m'')\<lparr>tiles := Some \<lparr>awidth = 3, aheight = 1,
      cells = (\<lambda>p. if p = (1, 0) then Plain SOLID_ROCK else Plain FLOOR)\<rparr>\<rparr>"

lemma samples_0_2: "samples (0, 0) (2, 0) = [(0, 0), (1, 0), (2, 0)]"
  by (simp add: samples_def sample_def interpolate_div distance_def py_range_def
      upto_rec1 Let_def)

theorem line_of_sight_see_through_witness:
  "line_of_sight (Builder_init (Map_init ''m'') 3 1 (Plain FLOOR)) (0, 0) (2, 0)
     = Inr (Some [(0, 0), (1, 0), (2, 0)])
   \<and> length (samples (0, 0) (2, 0)) = 3"
proof -
  have "is_in_map (Builder_init (Map_init ''m'') 3 1 (Plain FLOOR)) (0, 0)"
    "is_in_map (Builder_init (Map_init ''m'') 3 1 (Plain FLOOR)) (2, 0)"
    by (simp_all add: is_in_map_def size_of_def Builder_init_def Map_init_def)
  from line_of_sight_see_through [OF this]
  show ?thesis
    by (simp add: samples_0_2 see_through_at_def getitem_def array_get_def in_array_def
        Builder_init_def Map_init_def SEE_THROUGH_def)
qed

text \<open>
  C4 as stated fails: with solid rock between two floor tiles no sampled tile is a Wall,
  and the result is \<^verbatim>\<open>None\<close> all the same.
\<close>

theorem line_of_sight_rock_counterexample:
  "is_in_map corridor_with_rock (0, 0) \<and> is_in_map corridor_with_rock (2, 0)
   \<and> \<not> (\<exists>p \<in> set (samples (0, 0) (2, 0)). wall_at corridor_with_rock p)
   \<and> line_of_sight corridor_with_rock (0, 0) (2, 0) = Inr None"
  by (simp add: samples_0_2 is_in_map_def size_of_def corridor_with_rock_def Map_init_def
      wall_at_def getitem_def array_get_def in_array_def WALLS_def SEE_THROUGH_def
      line_of_sight_def py_range_def distance_def upto_rec1 sample_def interpolate_div
      Let_def)

section \<open>Placing, removing and moving things\<close>

text \<open>
  Modelled from the spec: the random source \<^verbatim>\<open>randutils.rng\<close> (seedable uniform integer,
  choice and shuffle operations). The model takes what it returns as a parameter:
  \<open>draw g i\<close> is the \<open>i\<close>-th pair \<^verbatim>\<open>(rng.randrange(w), rng.randrange(h))\<close> that
  \<^verbatim>\<open>random_pos\<close> draws (or the exception it raises), \<open>shuffle_of g\<close> is what
  \<^verbatim>\<open>rng.shuffle\<close> does to a list.
\<close>

record rng =
  draw :: "nat \<Rightarrow> error + pos"
  shuffle_of :: "pos list \<Rightarrow> pos list"

text \<open>
  \<^verbatim>\<open>Map._nearby_tiles\<close>: the generator that yields the rings of radius
  \<open>1, \<dots>, max(w, h) - 1\<close> one after the other; the list is everything it yields.
\<close>

definition nearby_tiles :: "Map \<Rightarrow> rng \<Rightarrow> pos \<Rightarrow> bool \<Rightarrow> bool \<Rightarrow> pos list" where
  "nearby_tiles m g p free_only shuffle =
     (let (w, h) = size_of m in
      concat (map (\<lambda>rad. ring m (shuffle_of g) p rad free_only shuffle None True)
                  (py_range 1 (max w h))))"

text \<open>
  \<^verbatim>\<open>if tiles:\<close> where \<^verbatim>\<open>tiles\<close> is a generator object: a generator defines neither
  \<^verbatim>\<open>__bool__\<close> nor \<^verbatim>\<open>__len__\<close>, so it is true whatever it will yield.
\<close>

definition generator_truthy :: "'a list \<Rightarrow> bool" where
  "generator_truthy gen = True"

text \<open>\<^verbatim>\<open>next(iter(tiles))\<close>: the first element, StopIteration when there is none.\<close>

definition next_of :: "'a list \<Rightarrow> error + 'a" where
  "next_of gen = (case gen of [] \<Rightarrow> Inl StopIteration | t # ts \<Rightarrow> Inr t)"

text \<open>
  The \<^verbatim>\<open>for i in range(5)\<close> loop of \<^verbatim>\<open>Map.random_pos\<close>: \<open>Inr (Inl p)\<close> when it returns
  \<open>p\<close>, \<open>Inr (Inr last_xy)\<close> when it ends with the last draw \<open>last_xy\<close>.
\<close>

fun random_pos_loop :: "Map \<Rightarrow> rng \<Rightarrow> bool \<Rightarrow> nat list \<Rightarrow> pos \<Rightarrow> error + (pos + pos)" where
  "random_pos_loop m g fr [] last_xy = Inr (Inr last_xy)"
| "random_pos_loop m g fr (i # is) last_xy =
     (case draw g i of
        Inl e \<Rightarrow> Inl e
      | Inr p \<Rightarrow>
          if fr then (if free m p then Inr (Inl p) else random_pos_loop m g fr is p)
          else Inr (Inl p))"

text \<open>\<^verbatim>\<open>Map.random_pos\<close>.\<close>

definition random_pos :: "Map \<Rightarrow> rng \<Rightarrow> bool \<Rightarrow> error + pos" where
  "random_pos m g fr =
     (case random_pos_loop m g fr [0..<5] (0, 0) of
        Inl e \<Rightarrow> Inl e
      | Inr (Inl p) \<Rightarrow> Inr p
      | Inr (Inr last_xy) \<Rightarrow>
          (let nearby = nearby_tiles m g last_xy fr True in
           if generator_truthy nearby then next_of nearby else Inl RuntimeError_MapFull))"

text \<open>
  \<^verbatim>\<open>Map.__contains__\<close> for a thing that is not a string: a key of \<^verbatim>\<open>_a_to_pos\<close> or of
  \<^verbatim>\<open>_i_to_pos\<close>.
\<close>

definition contains :: "Map \<Rightarrow> thing \<Rightarrow> bool" where
  "contains m t =
     (case t of
        AnActor a \<Rightarrow> a \<in> dom (a_to_pos m)
      | AnItem i \<Rightarrow> i \<in> dom (i_to_pos m)
      | AMood md \<Rightarrow> False
      | Other n \<Rightarrow> False)"

text \<open>
  Modelled from the spec: \<^verbatim>\<open>items.ItemCollection\<close>, the ordered, appendable stack of items
  at a position, is a list; \<^verbatim>\<open>_pos_to_i\<close> is a \<^verbatim>\<open>defaultdict\<close>, so reading a position
  that has no stack gives an empty one.
\<close>

definition stack_at :: "Map \<Rightarrow> pos \<Rightarrow> item list" where
  "stack_at m p = (case pos_to_i m p of None \<Rightarrow> [] | Some st \<Rightarrow> st)"

text \<open>
  \<^verbatim>\<open>Map.place(thing, pos, fallback)\<close>; \<open>pos_opt = None\<close> is \<^verbatim>\<open>pos=None\<close>. It returns
  the map as the call leaves it and the final position.
\<close>

definition place :: "Map \<Rightarrow> rng \<Rightarrow> thing \<Rightarrow> pos option \<Rightarrow> bool \<Rightarrow> error + (Map \<times> pos)" where
  "place m g th pos_opt fallback =
     (if contains m th then Inl ValueError_AlreadyOnMap
      else
        (case (case pos_opt of None \<Rightarrow> random_pos m g True | Some p \<Rightarrow> Inr p) of
           Inl e \<Rightarrow> Inl e
         | Inr p \<Rightarrow>
             (case th of
                AnActor a \<Rightarrow>
                  (case (if p \<in> dom (pos_to_a m)
                         then (if fallback
                               then (let nearby = nearby_tiles m g p True True in
                                     if generator_truthy nearby then next_of nearby
                                     else Inl RuntimeError_MapFull)
                               else Inl ValueError_Conflict)
                         else Inr p) of
                     Inl e \<Rightarrow> Inl e
                   | Inr p' \<Rightarrow>
                       Inr (m\<lparr>id_to_a := (id_to_a m)(actor_id a \<mapsto> a),
                              a_to_pos := (a_to_pos m)(a \<mapsto> p'),
                              pos_to_a := (pos_to_a m)(p' \<mapsto> a)\<rparr>, p'))
              | AnItem i \<Rightarrow>
                  Inr (m\<lparr>i_to_pos := (i_to_pos m)(i \<mapsto> p),
                         pos_to_i := (pos_to_i m)(p \<mapsto> stack_at m p @ [i])\<rparr>, p)
              | AMood md \<Rightarrow> Inr (m\<lparr>pos_to_m := (pos_to_m m)(p \<mapsto> md)\<rparr>, p)
              | Other n \<Rightarrow> Inl ValueError_Unsupported)))"

text \<open>
  \<^verbatim>\<open>Map.remove\<close>. Each \<^verbatim>\<open>del\<close> of a missing key is a KeyError;
  \<^verbatim>\<open>ItemCollection.remove\<close> of an item that is not in the stack raises as
  \<^verbatim>\<open>list.remove\<close> does.
\<close>

definition remove :: "Map \<Rightarrow> thing \<Rightarrow> error + Map" where
  "remove m th =
     (case th of
        AnActor a \<Rightarrow>
          (case a_to_pos m a of
             None \<Rightarrow> Inl ValueError_NotOnMap
           | Some p \<Rightarrow>
               if p \<notin> dom (pos_to_a m) then Inl KeyError
               else if actor_id a \<notin> dom (id_to_a m) then Inl KeyError
               else Inr (m\<lparr>pos_to_a := (pos_to_a m)(p := None),
                           a_to_pos := (a_to_pos m)(a := None),
                           id_to_a := (id_to_a m)(actor_id a := None)\<rparr>))
      | AnItem i \<Rightarrow>
          (case i_to_pos m i of
             None \<Rightarrow> Inl ValueError_NotOnMap
           | Some p \<Rightarrow>
               if i \<notin> set (stack_at m p) then Inl ValueError_NotOnMap
               else Inr (m\<lparr>pos_to_i := (pos_to_i m)(p \<mapsto> remove1 i (stack_at m p)),
                           i_to_pos := (i_to_pos m)(i := None)\<rparr>))
      | AMood md \<Rightarrow> Inl ValueError_NotOnMap
      | Other n \<Rightarrow> Inl ValueError_NotOnMap)"

text \<open>
  \<^verbatim>\<open>Map.move\<close>. No test of the target position. The branch for an item evaluates
  \<^verbatim>\<open>self._pos_to_i.remove\<close>, an attribute that a \<^verbatim>\<open>defaultdict\<close> does not have, so it
  raises AttributeError before it changes anything.
\<close>

definition move :: "Map \<Rightarrow> thing \<Rightarrow> pos \<Rightarrow> error + Map" where
  "move m th there =
     (case th of
        AnActor a \<Rightarrow>
          (case a_to_pos m a of
             None \<Rightarrow> Inl ValueError_NotOnMap
           | Some p \<Rightarrow>
               if p \<notin> dom (pos_to_a m) then Inl KeyError
               else Inr (m\<lparr>pos_to_a := ((pos_to_a m)(p := None))(there \<mapsto> a),
                           a_to_pos := (a_to_pos m)(a \<mapsto> there)\<rparr>))
      | AnItem i \<Rightarrow>
          (case i_to_pos m i of
             None \<Rightarrow> Inl ValueError_NotOnMap
           | Some p \<Rightarrow> Inl AttributeError)
      | AMood md \<Rightarrow> Inl ValueError_NotOnMap
      | Other n \<Rightarrow> Inl ValueError_NotOnMap)"

text \<open>A call of one of the three mutating methods, and a sequence of calls that stops at the first exception.\<close>

datatype op = Place thing "pos option" bool rng | Remove thing | Move thing pos

fun apply_op :: "Map \<Rightarrow> op \<Rightarrow> error + Map" where
  "apply_op m (Place th pos_opt fallback g) =
     (case place m g th pos_opt fallback of Inl e \<Rightarrow> Inl e | Inr (m', p) \<Rightarrow> Inr m')"
| "apply_op m (Remove th) = remove m th"
| "apply_op m (Move th there) = move m th there"

fun run :: "Map \<Rightarrow> op list \<Rightarrow> error + Map" where
  "run m [] = Inr m"
| "run m (x # xs) = (case apply_op m x of Inl e \<Rightarrow> Inl e | Inr m' \<Rightarrow> run m' xs)"

text \<open>
  Two dictionaries that are inverses of each other, and an item dictionary that agrees
  with the stacks: an item is recorded at \<open>p\<close> exactly when it is in the stack at \<open>p\<close>,
  and no stack holds an item twice.
\<close>

definition inverse_maps :: "('a \<rightharpoonup> 'b) \<Rightarrow> ('b \<rightharpoonup> 'a) \<Rightarrow> bool" where
  "inverse_maps f g = (\<forall>a p. f a = Some p \<longleftrightarrow> g p = Some a)"

definition stacks_consistent :: "('i \<rightharpoonup> 'p) \<Rightarrow> ('p \<rightharpoonup> 'i list) \<Rightarrow> bool" where
  "stacks_consistent f s =
     ((\<forall>i p. f i = Some p \<longleftrightarrow> (\<exists>st. s p = Some st \<and> i \<in> set st))
      \<and> (\<forall>p st. s p = Some st \<longrightarrow> distinct st))"

text \<open>
  The indices of a map: \<^verbatim>\<open>_a_to_pos\<close> and \<^verbatim>\<open>_pos_to_a\<close> are mutual inverses, the item
  index agrees with the stacks, and every entry of \<^verbatim>\<open>_id_to_a\<close> is an actor on the map
  under its own id.
\<close>

definition actors_inv :: "Map \<Rightarrow> bool" where
  "actors_inv m = inverse_maps (a_to_pos m) (pos_to_a m)"

definition items_inv :: "Map \<Rightarrow> bool" where
  "items_inv m = stacks_consistent (i_to_pos m) (pos_to_i m)"

definition ids_inv :: "Map \<Rightarrow> bool" where
  "ids_inv m = (\<forall>k a. id_to_a m k = Some a \<longrightarrow> a \<in> dom (a_to_pos m) \<and> actor_id a = k)"

definition indices_inv :: "Map \<Rightarrow> bool" where
  "indices_inv m = (actors_inv m \<and> items_inv m \<and> ids_inv m)"

text \<open>The call is not a move of an actor onto a position that another actor occupies.\<close>

fun move_target_clear :: "Map \<Rightarrow> op \<Rightarrow> bool" where
  "move_target_clear m (Move (AnActor a) there) =
     (case pos_to_a m there of None \<Rightarrow> True | Some b \<Rightarrow> b = a)"
| "move_target_clear m x = True"

fun moves_clear :: "Map \<Rightarrow> op list \<Rightarrow> bool" where
  "moves_clear m [] = True"
| "moves_clear m (x # xs) =
     (move_target_clear m x \<and>
      (case apply_op m x of Inl e \<Rightarrow> True | Inr m' \<Rightarrow> moves_clear m' xs))"

lemma inverse_mapsD1: "inverse_maps f g \<Longrightarrow> f a = Some p \<Longrightarrow> g p = Some a"
  unfolding inverse_maps_def by blast

lemma inverse_mapsD2: "inverse_maps f g \<Longrightarrow> g p = Some a \<Longrightarrow> f a = Some p"
  unfolding inverse_maps_def by blast

lemma inverse_maps_add:
  assumes "inverse_maps f g" "f a = None" "g p = None"
  shows "inverse_maps (f(a \<mapsto> p)) (g(p \<mapsto> a))"
  unfolding inverse_maps_def
proof (intro allI iffI)
  fix b q
  note D1 = inverse_mapsD1 [OF assms(1)] and D2 = inverse_mapsD2 [OF assms(1)]
  {
    assume h: "(f(a \<mapsto> p)) b = Some q"
    show "(g(p \<mapsto> a)) q = Some b"
    proof (cases "b = a")
      case True
      then show ?thesis using h by simp
    next
      case False
      then have fb: "f b = Some q" using h by simp
      then have "g q = Some b" by (rule D1)
      moreover have "q \<noteq> p" using calculation assms(3) by auto
      ultimately show ?thesis by simp
    qed
  }
  {
    assume h: "(g(p \<mapsto> a)) q = Some b"
    show "(f(a \<mapsto> p)) b = Some q"
    proof (cases "q = p")
      case True
      then show ?thesis using h by simp
    next
      case False
      then have "g q = Some b" using h by simp
      then have fb: "f b = Some q" by (rule D2)
      moreover have "b \<noteq> a" using fb assms(2) by auto
      ultimately show ?thesis by simp
    qed
  }
qed

lemma inverse_maps_del:
  assumes "inverse_maps f g" "f a = Some p"
  shows "inverse_maps (f(a := None)) (g(p := None))"
  unfolding inverse_maps_def
proof (intro allI iffI)
  fix b q
  note D1 = inverse_mapsD1 [OF assms(1)] and D2 = inverse_mapsD2 [OF assms(1)]
  have gp: "g p = Some a" using D1 assms(2) by blast
  {
    assume h: "(f(a := None)) b = Some q"
    then have ba: "b \<noteq> a" and fb: "f b = Some q" by (auto split: if_splits)
    have gq: "g q = Some b" using fb by (rule D1)
    have "q \<noteq> p" using gq gp ba by auto
    then show "(g(p := None)) q = Some b" using gq by simp
  }
  {
    assume h: "(g(p := None)) q = Some b"
    then have qp: "q \<noteq> p" and gq: "g q = Some b" by (auto split: if_splits)
    have fb: "f b = Some q" using gq by (rule D2)
    have "b \<noteq> a" using fb assms(2) qp by auto
    then show "(f(a := None)) b = Some q" using fb by simp
  }
qed

lemma inverse_maps_move:
  assumes "inverse_maps f g" "f a = Some p" "g t = None \<or> g t = Some a"
  shows "inverse_maps (f(a \<mapsto> t)) ((g(p := None))(t \<mapsto> a))"
  unfolding inverse_maps_def
proof (intro allI iffI)
  fix b q
  note D1 = inverse_mapsD1 [OF assms(1)] and D2 = inverse_mapsD2 [OF assms(1)]
  have gp: "g p = Some a" using D1 assms(2) by blast
  {
    assume h: "(f(a \<mapsto> t)) b = Some q"
    show "((g(p := None))(t \<mapsto> a)) q = Some b"
    proof (cases "b = a")
      case True
      then show ?thesis using h by simp
    next
      case False
      then have fb: "f b = Some q" using h by simp
      have gq: "g q = Some b" using fb by (rule D1)
      have "q \<noteq> p" using gq gp False by auto
      moreover have "q \<noteq> t" using gq assms(3) False by auto
      ultimately show ?thesis using gq by simp
    qed
  }
  {
    assume h: "((g(p := None))(t \<mapsto> a)) q = Some b"
    show "(f(a \<mapsto> t)) b = Some q"
    proof (cases "q = t")
      case True
      then show ?thesis using h by simp
    next
      case False
      then have qp: "q \<noteq> p" and gq: "g q = Some b" using h by (auto split: if_splits)
      have fb: "f b = Some q" using gq by (rule D2)
      have "b \<noteq> a" using fb assms(2) qp by auto
      then show ?thesis using fb by simp
    qed
  }
qed

lemma stacks_consistent_add:
  assumes "stacks_consistent f s" "f i = None"
  shows "stacks_consistent (f(i \<mapsto> p)) (s(p \<mapsto> (case s p of None \<Rightarrow> [] | Some st \<Rightarrow> st) @ [i]))"
proof -
  have notin: "i \<notin> set st" if "s q = Some st" for q st
    using assms that unfolding stacks_consistent_def by (metis option.distinct(1))
  have d: "distinct st" if "s q = Some st" for q st
    using assms that unfolding stacks_consistent_def by blast
  have fw: "\<exists>st. s q = Some st \<and> j \<in> set st" if "f j = Some q" for j q
    using assms that unfolding stacks_consistent_def by blast
  have bw: "f j = Some q" if "s q = Some st" "j \<in> set st" for j q st
    using assms that unfolding stacks_consistent_def by blast
  define old where "old = (case s p of None \<Rightarrow> [] | Some st \<Rightarrow> st)"
  have old_mem: "j \<in> set old \<longleftrightarrow> (\<exists>st. s p = Some st \<and> j \<in> set st)" for j
    by (cases "s p") (simp_all add: old_def)
  have old_d: "distinct old" "i \<notin> set old"
    using d [of p] notin [of p] by (cases "s p"; simp add: old_def)+
  show ?thesis
    unfolding stacks_consistent_def old_def [symmetric]
  proof (intro conjI allI impI)
    fix j q
    show "(f(i \<mapsto> p)) j = Some q \<longleftrightarrow>
        (\<exists>st. (s(p \<mapsto> old @ [i])) q = Some st \<and> j \<in> set st)"
    proof (cases "j = i")
      case True
      show ?thesis
      proof (cases "q = p")
        case True
        then show ?thesis using \<open>j = i\<close> by simp
      next
        case False
        then show ?thesis using \<open>j = i\<close> notin by auto
      qed
    next
      case False
      have e: "f j = Some q \<longleftrightarrow> (\<exists>st. s q = Some st \<and> j \<in> set st)"
        using fw bw by blast
      show ?thesis
      proof (cases "q = p")
        case True
        then show ?thesis using False e old_mem [of j] by simp
      next
        case qp: False
        then show ?thesis using False e by simp
      qed
    qed
  next
    fix q st
    assume "(s(p \<mapsto> old @ [i])) q = Some st"
    then show "distinct st" using old_d d by (cases "q = p") auto
  qed
qed

lemma stacks_consistent_del:
  assumes "stacks_consistent f s" "f i = Some p"
  shows "stacks_consistent (f(i := None)) (s(p \<mapsto> remove1 i (case s p of None \<Rightarrow> [] | Some st \<Rightarrow> st)))"
proof -
  have d: "distinct st" if "s q = Some st" for q st
    using assms that unfolding stacks_consistent_def by blast
  have fw: "\<exists>st. s q = Some st \<and> j \<in> set st" if "f j = Some q" for j q
    using assms that unfolding stacks_consistent_def by blast
  have bw: "f j = Some q" if "s q = Some st" "j \<in> set st" for j q st
    using assms that unfolding stacks_consistent_def by blast
  from fw [OF assms(2)] obtain st0 where st0: "s p = Some st0" "i \<in> set st0" by blast
  have d0: "distinct st0" using d st0 by blast
  show ?thesis
    unfolding stacks_consistent_def
  proof (intro conjI allI impI)
    fix j q
    show "(f(i := None)) j = Some q \<longleftrightarrow>
        (\<exists>st. (s(p \<mapsto> remove1 i (case s p of None \<Rightarrow> [] | Some st \<Rightarrow> st))) q = Some st \<and> j \<in> set st)"
    proof (cases "j = i")
      case True
      show ?thesis
      proof (cases "q = p")
        case True
        then show ?thesis using \<open>j = i\<close> st0 d0 by simp
      next
        case False
        have "\<not> (\<exists>st. s q = Some st \<and> i \<in> set st)"
          using bw assms(2) False by fastforce
        then show ?thesis using \<open>j = i\<close> False by simp
      qed
    next
      case False
      show ?thesis
      proof (cases "q = p")
        case True
        have "f j = Some p \<longleftrightarrow> j \<in> set st0" using fw bw st0 by fastforce
        then show ?thesis using False True st0 by simp
      next
        case qp: False
        have "f j = Some q \<longleftrightarrow> (\<exists>st. s q = Some st \<and> j \<in> set st)" using fw bw by blast
        then show ?thesis using False qp by simp
      qed
    qed
  next
    fix q st
    assume "(s(p \<mapsto> remove1 i (case s p of None \<Rightarrow> [] | Some st \<Rightarrow> st))) q = Some st"
    then show "distinct st" using d st0 d0 by (cases "q = p") auto
  qed
qed

lemma next_of_mem: "next_of xs = Inr x \<Longrightarrow> x \<in> set xs"
  by (auto simp: next_of_def split: list.splits)

lemma nearby_free: "p \<in> set (nearby_tiles m g c True sh) \<Longrightarrow> free m p"
  by (auto simp: nearby_tiles_def ring_def Let_def split: prod.splits)

lemma free_unoccupied: "free m p \<Longrightarrow> pos_to_a m p = None"
  by (auto simp: free_def is_free_def split: sum.splits if_splits)

lemma place_actor_pos:
  assumes "place m g (AnActor a) pos_opt fb = Inr (m', p)"
  shows "pos_to_a m p = None \<and> a_to_pos m a = None
    \<and> m' = m\<lparr>id_to_a := (id_to_a m)(actor_id a \<mapsto> a),
              a_to_pos := (a_to_pos m)(a \<mapsto> p),
              pos_to_a := (pos_to_a m)(p \<mapsto> a)\<rparr>"
proof -
  from assms have nc: "a_to_pos m a = None"
    by (cases "a_to_pos m a") (auto simp: place_def contains_def dom_def)
  from assms have "pos_to_a m p = None
    \<and> m' = m\<lparr>id_to_a := (id_to_a m)(actor_id a \<mapsto> a),
              a_to_pos := (a_to_pos m)(a \<mapsto> p),
              pos_to_a := (pos_to_a m)(p \<mapsto> a)\<rparr>"
    by (auto simp: place_def contains_def generator_truthy_def Let_def
        split: if_splits sum.splits option.splits
        dest!: next_of_mem nearby_free free_unoccupied)
  with nc show ?thesis by simp
qed

lemma place_item_pos:
  assumes "place m g (AnItem i) pos_opt fb = Inr (m', p)"
  shows "i_to_pos m i = None
    \<and> m' = m\<lparr>i_to_pos := (i_to_pos m)(i \<mapsto> p),
              pos_to_i := (pos_to_i m)(p \<mapsto> stack_at m p @ [i])\<rparr>"
proof -
  from assms have nc: "i_to_pos m i = None"
    by (cases "i_to_pos m i") (auto simp: place_def contains_def dom_def)
  from assms have "m' = m\<lparr>i_to_pos := (i_to_pos m)(i \<mapsto> p),
              pos_to_i := (pos_to_i m)(p \<mapsto> stack_at m p @ [i])\<rparr>"
    by (auto simp: place_def contains_def split: if_splits sum.splits option.splits)
  with nc show ?thesis by simp
qed

lemma place_mood_pos:
  assumes "place m g (AMood md) pos_opt fb = Inr (m', p)"
  shows "m' = m\<lparr>pos_to_m := (pos_to_m m)(p \<mapsto> md)\<rparr>"
  using assms by (auto simp: place_def contains_def split: if_splits sum.splits option.splits)

lemma place_other: "place m g (Other n) pos_opt fb \<noteq> Inr r"
  by (auto simp: place_def contains_def split: if_splits sum.splits option.splits)

lemma ids_inv_add:
  assumes "ids_inv m"
  shows "ids_inv (m\<lparr>id_to_a := (id_to_a m)(actor_id a \<mapsto> a),
              a_to_pos := (a_to_pos m)(a \<mapsto> p), pos_to_a := g\<rparr>)"
  using assms unfolding ids_inv_def by auto

lemma place_inv:
  assumes inv: "indices_inv m" and pl: "place m g th pos_opt fb = Inr (m', p)"
  shows "indices_inv m'"
proof (cases th)
  case (AnActor a)
  from place_actor_pos [OF pl [unfolded AnActor]]
  have f: "pos_to_a m p = None" "a_to_pos m a = None"
    and m': "m' = m\<lparr>id_to_a := (id_to_a m)(actor_id a \<mapsto> a),
              a_to_pos := (a_to_pos m)(a \<mapsto> p),
              pos_to_a := (pos_to_a m)(p \<mapsto> a)\<rparr>"
    by simp_all
  have ai: "actors_inv m" using inv by (simp add: indices_inv_def)
  have "actors_inv m'"
    using inverse_maps_add [OF ai [unfolded actors_inv_def] f(2) f(1)]
    by (simp add: actors_inv_def m')
  moreover have "items_inv m'"
    using inv by (simp add: indices_inv_def items_inv_def m')
  moreover have "ids_inv m'"
    unfolding m' using inv by (intro ids_inv_add) (simp add: indices_inv_def)
  ultimately show ?thesis by (simp add: indices_inv_def)
next
  case (AnItem i)
  from place_item_pos [OF pl [unfolded AnItem]]
  have f: "i_to_pos m i = None"
    and m': "m' = m\<lparr>i_to_pos := (i_to_pos m)(i \<mapsto> p),
              pos_to_i := (pos_to_i m)(p \<mapsto> stack_at m p @ [i])\<rparr>"
    by simp_all
  have it: "items_inv m" using inv by (simp add: indices_inv_def)
  have "items_inv m'"
    using stacks_consistent_add [OF it [unfolded items_inv_def] f, of p]
    by (simp add: items_inv_def m' stack_at_def)
  moreover have "actors_inv m'" "ids_inv m'"
    using inv by (simp_all add: indices_inv_def actors_inv_def ids_inv_def m')
  ultimately show ?thesis by (simp add: indices_inv_def)
next
  case (AMood md)
  from place_mood_pos [OF pl [unfolded AMood]]
  show ?thesis using inv
    by (simp add: indices_inv_def actors_inv_def items_inv_def ids_inv_def)
next
  case (Other n)
  then show ?thesis using pl place_other by blast
qed

lemma remove_inv:
  assumes inv: "indices_inv m" and rm: "remove m th = Inr m'"
  shows "indices_inv m'"
proof (cases th)
  case (AnActor a)
  from rm obtain p where p: "a_to_pos m a = Some p"
    and m': "m' = m\<lparr>pos_to_a := (pos_to_a m)(p := None),
                           a_to_pos := (a_to_pos m)(a := None),
                           id_to_a := (id_to_a m)(actor_id a := None)\<rparr>"
    by (auto simp: remove_def AnActor split: option.splits if_splits)
  have ai: "actors_inv m" using inv by (simp add: indices_inv_def)
  have "actors_inv m'"
    using inverse_maps_del [OF ai [unfolded actors_inv_def] p]
    by (simp add: actors_inv_def m')
  moreover have "items_inv m'"
    using inv by (simp add: indices_inv_def items_inv_def m')
  moreover have "ids_inv m'"
    using inv unfolding indices_inv_def ids_inv_def m' by auto
  ultimately show ?thesis by (simp add: indices_inv_def)
next
  case (AnItem i)
  from rm obtain p where p: "i_to_pos m i = Some p"
    and m': "m' = m\<lparr>pos_to_i := (pos_to_i m)(p \<mapsto> remove1 i (stack_at m p)),
                           i_to_pos := (i_to_pos m)(i := None)\<rparr>"
    by (auto simp: remove_def AnItem split: option.splits if_splits)
  have it: "items_inv m" using inv by (simp add: indices_inv_def)
  have "items_inv m'"
    using stacks_consistent_del [OF it [unfolded items_inv_def] p]
    by (simp add: items_inv_def m' stack_at_def)
  moreover have "actors_inv m'" "ids_inv m'"
    using inv by (simp_all add: indices_inv_def actors_inv_def ids_inv_def m')
  ultimately show ?thesis by (simp add: indices_inv_def)
next
  case (AMood md)
  then show ?thesis using rm by (simp add: remove_def)
next
  case (Other n)
  then show ?thesis using rm by (simp add: remove_def)
qed

lemma move_inv:
  assumes inv: "indices_inv m" and mv: "move m th there = Inr m'"
    and clear: "move_target_clear m (Move th there)"
  shows "indices_inv m'"
proof (cases th)
  case (AnActor a)
  from mv obtain p where p: "a_to_pos m a = Some p"
    and m': "m' = m\<lparr>pos_to_a := ((pos_to_a m)(p := None))(there \<mapsto> a),
                           a_to_pos := (a_to_pos m)(a \<mapsto> there)\<rparr>"
    by (auto simp: move_def AnActor split: option.splits if_splits)
  have cl: "pos_to_a m there = None \<or> pos_to_a m there = Some a"
    using clear by (cases "pos_to_a m there") (simp_all add: AnActor)
  have ai: "actors_inv m" using inv by (simp add: indices_inv_def)
  have "actors_inv m'"
    using inverse_maps_move [OF ai [unfolded actors_inv_def] p cl]
    by (simp add: actors_inv_def m')
  moreover have "items_inv m'"
    using inv by (simp add: indices_inv_def items_inv_def m')
  moreover have "ids_inv m'"
    using inv unfolding indices_inv_def ids_inv_def m' by auto
  ultimately show ?thesis by (simp add: indices_inv_def)
next
  case (AnItem i)
  then show ?thesis using mv by (simp add: move_def split: option.splits)
next
  case (AMood md)
  then show ?thesis using mv by (simp add: move_def)
next
  case (Other n)
  then show ?thesis using mv by (simp add: move_def)
qed

lemma apply_op_inv:
  assumes "indices_inv m" "apply_op m x = Inr m'" "move_target_clear m x"
  shows "indices_inv m'"
proof (cases x)
  case (Place th po fb g)
  then show ?thesis using assms place_inv
    by (auto split: sum.splits prod.splits)
next
  case (Remove th)
  then show ?thesis using assms remove_inv by auto
next
  case (Move th there)
  then show ?thesis using assms move_inv by auto
qed

text \<open>
  C3 (amended). After every sequence of successful \<^verbatim>\<open>place\<close>, \<^verbatim>\<open>remove\<close> and
  \<^verbatim>\<open>move\<close> calls in which no actor is moved onto a position that another actor
  occupies, the actor and position indices are mutual inverses, every placed item is in the
  stack at its recorded position (and only there), and \<^verbatim>\<open>_id_to_a\<close> holds no actor that
  is not on the map.
\<close>

theorem indices_preserved:
  assumes "indices_inv m" "run m ops = Inr m'" "moves_clear m ops"
  shows "indices_inv m'"
  using assms
proof (induction ops arbitrary: m)
  case Nil
  then show ?case by simp
next
  case (Cons x xs)
  from Cons.prems(2) obtain m1 where m1: "apply_op m x = Inr m1" "run m1 xs = Inr m'"
    by (auto split: sum.splits)
  have "indices_inv m1"
    using apply_op_inv [OF Cons.prems(1) m1(1)] Cons.prems(3) by simp
  moreover have "moves_clear m1 xs" using Cons.prems(3) m1(1) by simp
  ultimately show ?case using Cons.IH m1(2) by blast
qed


text \<open>A random source for calls that draw nothing, and three actors.\<close>

definition no_rng :: rng where
  "no_rng = \<lparr>draw = (\<lambda>i. Inr (0, 0)), shuffle_of = (\<lambda>xs. xs)\<rparr>"

definition alice :: actor where "alice = Actor 1 ''alice''"
definition bob :: actor where "bob = Actor 2 ''bob''"
definition carol :: actor where "carol = Actor 3 ''carol''"

definition crowded_ops :: "op list" where
  "crowded_ops = [Place (AnActor alice) (Some (0, 0)) False no_rng,
                  Place (AnActor bob) (Some (1, 0)) False no_rng,
                  Move (AnActor alice) (1, 0)]"

definition tidy_ops :: "op list" where
  "tidy_ops = [Place (AnActor alice) (Some (0, 0)) False no_rng,
               Place (AnItem (Item 7)) (Some (0, 0)) False no_rng,
               Move (AnActor alice) (1, 0),
               Remove (AnItem (Item 7)),
               Remove (AnActor alice)]"

lemma indices_inv_init: "indices_inv (Map_init i)"
  by (simp add: indices_inv_def actors_inv_def items_inv_def ids_inv_def inverse_maps_def
      stacks_consistent_def Map_init_def)

theorem indices_preserved_witness:
  "\<exists>m'. run (Map_init ''m'') tidy_ops = Inr m' \<and> indices_inv m'"
proof -
  have r: "\<exists>m'. run (Map_init ''m'') tidy_ops = Inr m'"
    by (simp add: tidy_ops_def place_def remove_def move_def contains_def stack_at_def
        alice_def Map_init_def no_rng_def)
  have c: "moves_clear (Map_init ''m'') tidy_ops"
    by (simp add: tidy_ops_def place_def remove_def move_def contains_def stack_at_def
        alice_def Map_init_def no_rng_def)
  from r obtain m' where m': "run (Map_init ''m'') tidy_ops = Inr m'" by blast
  from indices_preserved [OF indices_inv_init m' c] m' show ?thesis by blast
qed

text \<open>
  C3 as stated fails: \<^verbatim>\<open>move\<close> does not look at the target, so moving an actor onto
  the position of another one succeeds and leaves that one recorded at a position whose
  occupant is somebody else.
\<close>

theorem move_onto_actor_counterexample:
  "\<exists>m'. run (Map_init ''m'') crowded_ops = Inr m'
     \<and> a_to_pos m' bob = Some (1, 0) \<and> pos_to_a m' (1, 0) = Some alice
     \<and> \<not> actors_inv m'"
proof -
  have "\<exists>m'. run (Map_init ''m'') crowded_ops = Inr m'
     \<and> a_to_pos m' bob = Some (1, 0) \<and> pos_to_a m' (1, 0) = Some alice"
    by (simp add: crowded_ops_def place_def move_def contains_def
        alice_def bob_def Map_init_def no_rng_def)
  then obtain m' where m': "run (Map_init ''m'') crowded_ops = Inr m'"
     "a_to_pos m' bob = Some (1, 0)" "pos_to_a m' (1, 0) = Some alice"
    by blast
  have "\<not> actors_inv m'"
  proof
    assume "actors_inv m'"
    then have "pos_to_a m' (1, 0) = Some bob"
      using m'(2) unfolding actors_inv_def by (rule inverse_mapsD1)
    then show False using m'(3) by (simp add: alice_def bob_def)
  qed
  then show ?thesis using m' by blast
qed

text \<open>A map of two floor tiles, an actor on each.\<close>

definition full_map :: Map where
  "full_map = (Builder_init (Map_init ''m'') 2 1 (Plain FLOOR))
     \<lparr>id_to_a := [''alice'' \<mapsto> alice, ''bob'' \<mapsto> bob],
      a_to_pos := [alice \<mapsto> (0, 0), bob \<mapsto> (1, 0)],
      pos_to_a := [(0, 0) \<mapsto> alice, (1, 0) \<mapsto> bob]\<rparr>"

lemma nearby_full_map: "nearby_tiles full_map no_rng (0, 0) True True = []"
  by (simp add: nearby_tiles_def size_of_def full_map_def Builder_init_def Map_init_def
      py_range_def ring_def ring_tiles_def py_range_down_def upto_rec1 is_in_map_def
      no_rng_def free_def is_free_def is_walkable_def getitem_def array_get_def in_array_def
      WALKABLE_def)

text \<open>
  C2. Placing an actor with \<^verbatim>\<open>fallback=True\<close> on an occupied position of a map that has no
  free tile left: the claim says the call fails with the MapFull error
  (\<^verbatim>\<open>RuntimeError("The map appears to be full!")\<close>); the code raises StopIteration.
\<close>

theorem place_fallback_full_map:
  "place full_map no_rng (AnActor carol) (Some (0, 0)) True = Inl StopIteration"
  by (simp add: place_def contains_def nearby_full_map generator_truthy_def next_of_def)
    (simp add: full_map_def alice_def bob_def carol_def)

text \<open>The MapFull branch of \<^verbatim>\<open>place\<close> cannot be reached, whatever the map.\<close>

lemma place_never_map_full:
  "place m g th (Some p) fb \<noteq> Inl RuntimeError_MapFull"
  by (auto simp: place_def generator_truthy_def next_of_def Let_def
      split: thing.splits list.splits if_splits)

text \<open>Without fallback, an occupied position is a Conflict.\<close>

lemma place_conflict:
  assumes "a \<notin> dom (a_to_pos m)" "p \<in> dom (pos_to_a m)"
  shows "place m g (AnActor a) (Some p) False = Inl ValueError_Conflict"
  using assms by (simp add: place_def contains_def)

section \<open>Serialization and the hero\<close>

text \<open>
  The dictionary that \<^verbatim>\<open>Map.__getstate__\<close> returns: the attributes of the map, and
  the key \<^verbatim>\<open>"__hero_pos"\<close> when the hero was on the map.
\<close>

record pickled =
  pstate :: Map
  hero_pos :: "pos option"

text \<open>
  \<^verbatim>\<open>Map.__getstate__\<close>; \<open>hero\<close> is \<^verbatim>\<open>tender.hero\<close>, \<open>None\<close> when there is none.
\<close>

definition getstate :: "Map \<Rightarrow> actor option \<Rightarrow> error + pickled" where
  "getstate m hero =
     (case hero of
        None \<Rightarrow> Inr \<lparr>pstate = m, hero_pos = None\<rparr>
      | Some h \<Rightarrow>
          (case a_to_pos m h of
             None \<Rightarrow> Inr \<lparr>pstate = m, hero_pos = None\<rparr>
           | Some p \<Rightarrow>
               if actor_id h \<notin> dom (id_to_a m) then Inl KeyError
               else if p \<notin> dom (pos_to_a m) then Inl KeyError
               else Inr \<lparr>pstate = m\<lparr>id_to_a := (id_to_a m)(actor_id h := None),
                                       a_to_pos := (a_to_pos m)(h := None),
                                       pos_to_a := (pos_to_a m)(p := None)\<rparr>,
                         hero_pos = Some p\<rparr>))"

text \<open>
  \<^verbatim>\<open>Map.__setstate__\<close> on a new map object. A position is a non-empty tuple, so
  \<^verbatim>\<open>if hero_pos:\<close> holds whenever the key was present.
\<close>

definition setstate :: "pickled \<Rightarrow> actor option \<Rightarrow> rng \<Rightarrow> error + Map" where
  "setstate st hero g =
     (case hero_pos st of
        Some hp \<Rightarrow>
          (case hero of
             None \<Rightarrow> Inl RuntimeError_HeroNotRestored
           | Some h \<Rightarrow>
               (case place (pstate st) g (AnActor h) (Some hp) False of
                  Inl e \<Rightarrow> Inl e
                | Inr (m', p) \<Rightarrow> Inr m'))
      | None \<Rightarrow> Inr (pstate st))"

text \<open>
  Every actor on the map is registered under its id; with the invariants of the indices
  this is the occupancy invariant of a map whose actors have distinct ids.
\<close>

definition registered :: "Map \<Rightarrow> bool" where
  "registered m = (\<forall>a \<in> dom (a_to_pos m). id_to_a m (actor_id a) = Some a)"

definition occupancy_inv :: "Map \<Rightarrow> bool" where
  "occupancy_inv m = (actors_inv m \<and> ids_inv m \<and> registered m)"

text \<open>
  C9. For a map serialized while the hero was placed at \<open>p\<close>: the serialized state has no
  hero entry in \<^verbatim>\<open>_a_to_pos\<close>, \<^verbatim>\<open>_pos_to_a\<close> or \<^verbatim>\<open>_id_to_a\<close>; restoring it while
  \<^verbatim>\<open>tender.hero\<close> is \<^verbatim>\<open>None\<close> raises; restoring it after the hero gives the map back
  with the hero at \<open>p\<close> and the occupancy invariants intact.
\<close>

theorem hero_serialization:
  assumes inv: "occupancy_inv m" and hp: "a_to_pos m h = Some p"
  shows "\<exists>st. getstate m (Some h) = Inr st
      \<and> hero_pos st = Some p
      \<and> a_to_pos (pstate st) h = None
      \<and> (\<forall>q. pos_to_a (pstate st) q \<noteq> Some h)
      \<and> (\<forall>k. id_to_a (pstate st) k \<noteq> Some h)
      \<and> setstate st None g = Inl RuntimeError_HeroNotRestored
      \<and> (\<exists>m'. setstate st (Some h) g = Inr m' \<and> a_to_pos m' h = Some p
             \<and> pos_to_a m' p = Some h \<and> occupancy_inv m' \<and> m' = m)"
proof -
  have ai: "actors_inv m" and ii: "ids_inv m" and reg: "registered m"
    using inv by (simp_all add: occupancy_inv_def)
  note D1 = inverse_mapsD1 [OF ai [unfolded actors_inv_def]]
    and D2 = inverse_mapsD2 [OF ai [unfolded actors_inv_def]]
  have pa: "pos_to_a m p = Some h" using D1 hp by blast
  have ida: "id_to_a m (actor_id h) = Some h"
    using reg hp unfolding registered_def by blast
  define st where "st = \<lparr>pstate = m\<lparr>id_to_a := (id_to_a m)(actor_id h := None),
                                       a_to_pos := (a_to_pos m)(h := None),
                                       pos_to_a := (pos_to_a m)(p := None)\<rparr>,
                         hero_pos = Some p\<rparr>"
  have gs: "getstate m (Some h) = Inr st"
    using hp pa ida by (simp add: getstate_def st_def dom_def)
  have h1: "hero_pos st = Some p" "a_to_pos (pstate st) h = None"
    by (simp_all add: st_def)
  have h2: "pos_to_a (pstate st) q \<noteq> Some h" for q
  proof
    assume "pos_to_a (pstate st) q = Some h"
    then have "q \<noteq> p" "pos_to_a m q = Some h" by (auto simp: st_def split: if_splits)
    then show False using D2 [of q h] hp by simp
  qed
  have h3: "id_to_a (pstate st) k \<noteq> Some h" for k
  proof
    assume "id_to_a (pstate st) k = Some h"
    then have "k \<noteq> actor_id h" "id_to_a m k = Some h" by (auto simp: st_def split: if_splits)
    then show False using ii unfolding ids_inv_def by blast
  qed
  have h4: "setstate st None g = Inl RuntimeError_HeroNotRestored"
    by (simp add: setstate_def st_def)
  have e1: "(id_to_a m)(actor_id h \<mapsto> h) = id_to_a m" using ida by (rule map_upd_triv)
  have e2: "(a_to_pos m)(h \<mapsto> p) = a_to_pos m" using hp by (rule map_upd_triv)
  have e3: "(pos_to_a m)(p \<mapsto> h) = pos_to_a m" using pa by (rule map_upd_triv)
  have pl: "place (pstate st) g (AnActor h) (Some p) False = Inr (m, p)"
    by (simp add: place_def contains_def st_def e1 e2 e3)
  have h5: "setstate st (Some h) g = Inr m"
    by (simp add: setstate_def h1 pl)
  show ?thesis
    using gs h1 h2 h3 h4 h5 hp pa inv by blast
qed

text \<open>A map of two floor tiles with the hero on the first.\<close>

definition hero_map :: Map where
  "hero_map = (Builder_init (Map_init ''m'') 2 1 (Plain FLOOR))
     \<lparr>id_to_a := [''alice'' \<mapsto> alice, ''bob'' \<mapsto> bob],
      a_to_pos := [alice \<mapsto> (0, 0), bob \<mapsto> (1, 0)],
      pos_to_a := [(0, 0) \<mapsto> alice, (1, 0) \<mapsto> bob]\<rparr>"

lemma occupancy_inv_hero_map: "occupancy_inv hero_map"
  unfolding occupancy_inv_def actors_inv_def ids_inv_def registered_def inverse_maps_def
  by (auto simp: hero_map_def alice_def bob_def split: if_splits)

theorem hero_serialization_witness:
  "\<exists>st. getstate hero_map (Some alice) = Inr st \<and> hero_pos st = Some (0, 0)
      \<and> a_to_pos (pstate st) alice = None
      \<and> setstate st None no_rng = Inl RuntimeError_HeroNotRestored
      \<and> setstate st (Some alice) no_rng = Inr hero_map"
proof -
  have "a_to_pos hero_map alice = Some (0, 0)"
    by (simp add: hero_map_def alice_def bob_def)
  from hero_serialization [OF occupancy_inv_hero_map this, of no_rng]
  show ?thesis by blast
qed

section \<open>The recursive backtracker\<close>

text \<open>
  Modelled from the spec: the helpers of \<^verbatim>\<open>geometry\<close> that the maze algorithms use. A
  rectangle is its bottom-left and top-right corners, both inside it (\<^verbatim>\<open>Map.rect\<close> is
  \<open>((0, 0), (w-1, h-1))\<close>); \<^verbatim>\<open>geom.is_in_rect\<close> tests membership,
  \<^verbatim>\<open>geom.mid_point\<close> is the tile half-way between two tiles, and adding a
  \<^verbatim>\<open>geom.vect\<close> to a coordinate adds componentwise.
\<close>

type_synonym rect = "pos \<times> pos"

definition is_in_rect :: "pos \<Rightarrow> rect \<Rightarrow> bool" where
  "is_in_rect p r =
     (let (x, y) = p; ((x1, y1), (x2, y2)) = r in x1 \<le> x \<and> x \<le> x2 \<and> y1 \<le> y \<and> y \<le> y2)"

definition mid_point :: "pos \<Rightarrow> pos \<Rightarrow> pos" where
  "mid_point p q = (let (x1, y1) = p; (x2, y2) = q in ((x1 + x2) div 2, (y1 + y2) div 2))"

definition vect_add :: "pos \<Rightarrow> pos \<Rightarrow> pos" where
  "vect_add v p = (fst v + fst p, snd v + snd p)"

text \<open>\<^verbatim>\<open>Map.rect\<close>.\<close>

definition map_rect :: "Map \<Rightarrow> rect" where
  "map_rect m = (let (w, h) = size_of m in ((0, 0), (w - 1, h - 1)))"

text \<open>
  \<^verbatim>\<open>MazeAlgo.nb_cells\<close>, "how many cells we can fill": \<^verbatim>\<open>sum(divmod(n, 2))\<close> is
  \<open>n div 2 + n mod 2\<close>.
\<close>

definition nb_cells :: "rect \<Rightarrow> int" where
  "nb_cells r =
     (let ((x1, y1), (x2, y2)) = r;
          w = (x2 - x1 + 1) div 2 + (x2 - x1 + 1) mod 2;
          h = (y2 - y1 + 1) div 2 + (y2 - y1 + 1) mod 2
      in w * h)"

text \<open>\<^verbatim>\<open>RecursiveBacktracker.neighbor_offsets\<close> and \<^verbatim>\<open>RecursiveBacktracker.neighbors\<close>.\<close>

definition neighbor_offsets :: "pos list" where
  "neighbor_offsets = [(2, 0), (- 2, 0), (0, 2), (0, - 2)]"

definition neighbors :: "rect \<Rightarrow> pos \<Rightarrow> pos list" where
  "neighbors r coord = filter (\<lambda>c. is_in_rect c r) (map (\<lambda>off. vect_add off coord) neighbor_offsets)"

text \<open>The state that \<^verbatim>\<open>fill\<close> mutates: the tiles of the map and the set \<^verbatim>\<open>self.visited\<close>.\<close>

record backtracker =
  bt_map :: Map
  visited :: "pos set"

text \<open>
  \<^verbatim>\<open>RecursiveBacktracker.fill(coord)\<close> and its \<^verbatim>\<open>while next_options\<close> loop, which pops
  the options from the end of the shuffled list. The recursion carries fuel:
  \<open>None\<close> is a call that ran out of it, \<open>Some (Inl e)\<close> an exception.
\<close>

fun fill_cell ::
  "nat \<Rightarrow> rect \<Rightarrow> (pos list \<Rightarrow> pos list) \<Rightarrow> backtracker \<Rightarrow> pos \<Rightarrow> (error + backtracker) option"
and fill_options ::
  "nat \<Rightarrow> rect \<Rightarrow> (pos list \<Rightarrow> pos list) \<Rightarrow> backtracker \<Rightarrow> pos \<Rightarrow> pos list
     \<Rightarrow> (error + backtracker) option" where
  "fill_cell 0 r shuf bt coord = None"
| "fill_cell (Suc n) r shuf bt coord =
     (case setitem (bt_map bt) coord (Plain FLOOR) of
        Inl e \<Rightarrow> Some (Inl e)
      | Inr m1 \<Rightarrow>
          (let bt1 = bt\<lparr>bt_map := m1, visited := insert coord (visited bt)\<rparr>;
               next_options = shuf (filter (\<lambda>c. c \<notin> visited bt1) (neighbors r coord))
           in fill_options n r shuf bt1 coord (rev next_options)))"
| "fill_options n r shuf bt coord [] = Some (Inr bt)"
| "fill_options n r shuf bt coord (next_cell # rest) =
     (if next_cell \<notin> visited bt
      then (case setitem (bt_map bt) (mid_point coord next_cell) (Plain FLOOR) of
              Inl e \<Rightarrow> Some (Inl e)
            | Inr m1 \<Rightarrow>
                (case fill_cell n r shuf (bt\<lparr>bt_map := m1\<rparr>) next_cell of
                   None \<Rightarrow> None
                 | Some (Inl e) \<Rightarrow> Some (Inl e)
                 | Some (Inr bt2) \<Rightarrow> fill_options n r shuf bt2 coord rest))
      else fill_options n r shuf bt coord rest)"

text \<open>
  \<^verbatim>\<open>RecursiveBacktracker.fill()\<close>; \<open>start\<close> is the position that
  \<^verbatim>\<open>rng.pos_in_rect(self.rect)\<close> returns, "a random position inside the rectangle".
\<close>

definition fill :: "nat \<Rightarrow> rect \<Rightarrow> (pos list \<Rightarrow> pos list) \<Rightarrow> pos \<Rightarrow> Map \<Rightarrow> (error + backtracker) option" where
  "fill fuel r shuf start m =
     (case setitem m start (Plain FLOOR) of
        Inl e \<Rightarrow> Some (Inl e)
      | Inr m1 \<Rightarrow> fill_cell fuel r shuf \<lparr>bt_map = m1, visited = {start}\<rparr> start)"

text \<open>A map of 3\<times>3 solid rock.\<close>

definition rock3 :: Map where
  "rock3 = Builder_init (Map_init ''m'') 3 3 (Plain SOLID_ROCK)"

text \<open>
  C7. On the rectangle \<open>((0, 0), (2, 2))\<close>, which has four fillable cells, a start drawn at
  \<open>(1, 1)\<close> has no neighbour two steps away inside the rectangle: \<^verbatim>\<open>fill\<close> returns
  after visiting that one position, and the cells at the corners stay solid rock. The
  claim says every fillable cell is visited.
\<close>

theorem fill_off_lattice:
  "is_in_rect (1, 1) ((0, 0), (2, 2))
   \<and> nb_cells ((0, 0), (2, 2)) = 4
   \<and> (\<exists>bt. fill 1 ((0, 0), (2, 2)) (\<lambda>xs. xs) (1, 1) rock3 = Some (Inr bt)
         \<and> visited bt = {(1, 1)}
         \<and> getitem (bt_map bt) (0, 0) = Inr (Plain SOLID_ROCK)
         \<and> getitem (bt_map bt) (2, 2) = Inr (Plain SOLID_ROCK))"
  by (simp add: is_in_rect_def nb_cells_def fill_def setitem_def array_set_def in_array_def
      rock3_def Builder_init_def Map_init_def neighbors_def neighbor_offsets_def vect_add_def
      getitem_def array_get_def)

end
